theory Spec2Isabelle
  imports Main "HOL-Library.Sublist"
begin

section \<open>The object builder \<open>oof\<close> of simpler-fetch (src/oof.ts)\<close>

text \<open>
  The class \<open>oof\<close> accumulates the parameters of one HTTP call (method, path, header
  sources, options, data) through chained calls; \<open>run\<close> resolves them and calls the
  transport \<open>_fetch\<close>, and \<open>runJSON\<close> parses the response on top of that.

  Conventions of the embedding.
  \<^item> A JavaScript string is a \<open>string\<close>: the list of the bytes of its UTF-8 encoding.
    Concatenation and the search for an ASCII substring are the same on the bytes as on
    the UTF-16 code units of the source.
  \<^item> A JavaScript object is a map from property names to values; the spread
    \<open>{...a, ...b}\<close> is \<open>a ++ b\<close> (the properties of \<open>b\<close> win). The order in which an object
    enumerates its properties is not modelled.
  \<^item> A private field \<open>#x\<close> of the class is the record field \<open>p_x\<close>; the names \<open>_fetch\<close>,
    \<open>_baseUrl\<close>, \<open>_METHODS_WO_DATA\<close> and \<open>_METHODS_WITH_DATA\<close> lose their leading underscore.
  \<^item> A promise is modelled by its fate. Where a promise is the result of a whole
    operation, the fate is a value of \<open>('e + 'a) option\<close>: \<open>None\<close> when it never settles,
    \<open>Some (Inl e)\<close> when it rejects with \<open>e\<close>, \<open>Some (Inr a)\<close> when it fulfils with \<open>a\<close>.
    The type \<open>'e\<close> is the type of whatever the caller's functions and the transport
    throw.
\<close>

subsection \<open>Values\<close>

datatype jsval =
    JUndefined
  | JNull
  | JBool bool
  | JNum int
  | JStr string
  | JObj "string \<Rightarrow> jsval option"

type_synonym obj = "string \<Rightarrow> jsval option"

text \<open>\<open>type HTTPMethod = "HEAD" | "OPTIONS" | "GET" | "POST" | "PUT" | "PATCH" | "DELETE"\<close>;
  \<open>verb\<close> gives back the string the TypeScript type stands for.\<close>

datatype HTTPMethod =
  HttpHEAD | HttpOPTIONS | HttpGET | HttpPOST | HttpPUT | HttpPATCH | HttpDELETE

fun verb :: "HTTPMethod \<Rightarrow> string" where
  "verb HttpHEAD = ''HEAD''"
| "verb HttpOPTIONS = ''OPTIONS''"
| "verb HttpGET = ''GET''"
| "verb HttpPOST = ''POST''"
| "verb HttpPUT = ''PUT''"
| "verb HttpPATCH = ''PATCH''"
| "verb HttpDELETE = ''DELETE''"

subsection \<open>Header sources\<close>

text \<open>
  \<open>type Header = Object | Function\<close>. A function is called with no argument (the
  argument \<open>()\<close> of the model). The call throws, or returns a header object, or returns
  a promise for one (an \<open>async\<close> function always does the last). A promise for a header
  object stays pending for ever, or fulfils with an object, or rejects; \<open>Rejects t e\<close>
  carries the moment \<open>t\<close> of the rejection, since \<open>Promise.all\<close> reports the rejection
  that happens first.
\<close>

datatype 'e Promise = Pending | Fulfils obj | Rejects nat 'e

datatype 'e Returned = Throws 'e | Returns obj | ReturnsPromise "'e Promise"

datatype 'e Header = Object obj | Function "unit \<Rightarrow> 'e Returned"

subsection \<open>The transport and the state outside a builder\<close>

text \<open>
  A response exposes \<open>ok\<close>, \<open>status\<close> and \<open>json()\<close>; the field \<open>json\<close> is the fate of the
  promise that \<open>response.json()\<close> returns. The type parameter of \<open>runJSON\<close> declares the
  parsed body a \<open>Record<string, any>\<close>, so it is an object here.
\<close>

record 'e Response =
  ok :: bool
  status :: int
  json :: "('e + obj) option"

text \<open>
  The state outside a builder: the static field \<open>oof._baseUrl\<close>, and the calls of
  \<open>_fetch\<close> made so far, each with its three arguments, in the order they were made.
\<close>

record world =
  baseUrl :: string
  fetch_calls :: "(string \<times> obj \<times> jsval) list"

text \<open>\<open>static _baseUrl = ""\<close>: the state when the module is loaded.\<close>

definition initial :: world where
  "initial = \<lparr>baseUrl = '''', fetch_calls = []\<rparr>"

text \<open>The assignment \<open>oof._baseUrl = url\<close> that callers make.\<close>

definition set_baseUrl :: "string \<Rightarrow> world \<Rightarrow> world" where
  "set_baseUrl url w = w\<lparr>baseUrl := url\<rparr>"

type_synonym 'e transport = "string \<Rightarrow> obj \<Rightarrow> jsval \<Rightarrow> ('e + 'e Response) option"

text \<open>
  Modelled from the spec: the transport primitive \<open>_fetch\<close>, imported from \<open>./_fetch\<close>,
  which is not among the sources. It accepts \<open>(url, requestOptions, body)\<close> and
  returns a pending response. What the network answers is the parameter \<open>net\<close>; the
  call itself is recorded in \<open>fetch_calls\<close>.
\<close>

definition fetch ::
  "'e transport \<Rightarrow> string \<Rightarrow> obj \<Rightarrow> jsval \<Rightarrow> world \<Rightarrow> ('e + 'e Response) option \<times> world" where
  "fetch net url opts body w =
     (net url opts body, w\<lparr>fetch_calls := fetch_calls w @ [(url, opts, body)]\<rparr>)"

subsection \<open>The builder and its constructors\<close>

record 'e oof =
  p_method :: HTTPMethod
  p_headers :: "'e Header list"
  p_path :: string
  p_opts :: obj
  p_data :: jsval

text \<open>
  The argument \<open>headers\<close> of the constructor is one header source or an array of them.
\<close>

datatype 'e HeadersArg = Single "'e Header" | Array "'e Header list"

text \<open>
  \<open>constructor({ method, path, opts = {}, headers = [] })\<close>; an omitted argument is
  \<open>None\<close>. \<open>Array.isArray(headers) ? headers : [headers]\<close>. The field \<open>#data\<close> is not
  assigned, so it reads \<open>undefined\<close>.
\<close>

definition constructor ::
  "HTTPMethod \<Rightarrow> string \<Rightarrow> obj option \<Rightarrow> 'e HeadersArg option \<Rightarrow> 'e oof" where
  "constructor method path opts headers =
     \<lparr>p_method = method,
      p_headers =
        (case (case headers of None \<Rightarrow> Array [] | Some given \<Rightarrow> given) of
           Array hs \<Rightarrow> hs
         | Single h \<Rightarrow> [h]),
      p_path = path,
      p_opts = (case opts of None \<Rightarrow> Map.empty | Some given \<Rightarrow> given),
      p_data = JUndefined\<rparr>"

definition METHODS_WO_DATA :: "HTTPMethod \<Rightarrow> string \<Rightarrow> 'e oof" where
  "METHODS_WO_DATA method path = constructor method path None None"

definition METHODS_WITH_DATA :: "HTTPMethod \<Rightarrow> string \<Rightarrow> 'e oof" where
  "METHODS_WITH_DATA method path =
     constructor method path None
       (Some (Single (Object [''Content-Type'' \<mapsto> JStr ''application/json''])))"

definition GET :: "string \<Rightarrow> 'e oof" where
  "GET path = constructor HttpGET path None None"

definition POST :: "string \<Rightarrow> 'e oof" where
  "POST path = METHODS_WITH_DATA HttpPOST path"

definition PUT :: "string \<Rightarrow> 'e oof" where
  "PUT path = METHODS_WITH_DATA HttpPUT path"

definition DEL :: "string \<Rightarrow> 'e oof" where
  "DEL path = constructor HttpDELETE path None None"

subsection \<open>The chained calls\<close>

text \<open>Each mutates one field of \<open>this\<close> and returns \<open>this\<close>: the model returns the
  updated builder.\<close>

definition options :: "obj \<Rightarrow> 'e oof \<Rightarrow> 'e oof" where
  "options opts this = this\<lparr>p_opts := opts\<rparr>"

definition header :: "'e Header \<Rightarrow> 'e oof \<Rightarrow> 'e oof" where
  "header h this = this\<lparr>p_headers := p_headers this @ [h]\<rparr>"

definition data :: "jsval \<Rightarrow> 'e oof \<Rightarrow> 'e oof" where
  "data d this = this\<lparr>p_data := d\<rparr>"

subsection \<open>\<open>run\<close>: the target URL\<close>

text \<open>
  \<open>this.#path.match(/https:\/\/|http:\/\//i)\<close>. The flag \<open>i\<close> compares characters after
  \<open>Canonicalize\<close>, which without the flag \<open>u\<close> is \<open>toUpperCase\<close> on one code unit, and
  which never maps a code unit from 128 on to one below 128: on the letters of the
  pattern it is upper-casing of ASCII. The match is tried at every position from the
  left, the alternative \<open>https://\<close> before \<open>http://\<close>; \<open>path_match\<close> is whether \<open>match\<close>
  returns an array rather than \<open>null\<close>.
\<close>

definition Canonicalize :: "char \<Rightarrow> char" where
  "Canonicalize ch =
     (let cu = (of_char ch :: nat)
      in if 97 \<le> cu \<and> cu \<le> 122 then char_of (cu - 32) else ch)"

fun match_literal :: "string \<Rightarrow> string \<Rightarrow> bool" where
  "match_literal [] s = True"
| "match_literal (p # ps) [] = False"
| "match_literal (p # ps) (c # cs) =
     (Canonicalize p = Canonicalize c \<and> match_literal ps cs)"

fun path_match :: "string \<Rightarrow> bool" where
  "path_match [] = False"
| "path_match (c # cs) =
     (match_literal ''https://'' (c # cs) \<or> match_literal ''http://'' (c # cs)
      \<or> path_match cs)"

text \<open>The first argument of the call of \<open>_fetch\<close> (lines 171 to 173). It is evaluated
  when \<open>run\<close> is entered, before the header sources are looked at.\<close>

definition target_url :: "'e oof \<Rightarrow> world \<Rightarrow> string" where
  "target_url this w =
     (if path_match (p_path this) then p_path this else baseUrl w @ p_path this)"

text \<open>
  The specification's wording of the test, to compare with \<open>path_match\<close>: the path,
  read without regard to the case of its ASCII letters, contains \<open>http://\<close> or
  \<open>https://\<close> somewhere.
\<close>

definition ascii_lower :: "char \<Rightarrow> char" where
  "ascii_lower ch =
     (let cu = (of_char ch :: nat)
      in if 65 \<le> cu \<and> cu \<le> 90 then char_of (cu + 32) else ch)"

definition contains_scheme :: "string \<Rightarrow> bool" where
  "contains_scheme path =
     (sublist ''http://'' (map ascii_lower path) \<or> sublist ''https://'' (map ascii_lower path))"

subsection \<open>\<open>run\<close>: the header sources\<close>

text \<open>\<open>typeof header === "function" ? header() : header\<close>\<close>

fun header_value :: "'e Header \<Rightarrow> 'e Returned" where
  "header_value (Object item) = Returns item"
| "header_value (Function f) = f ()"

text \<open>
  \<open>this.#headers.map(...)\<close>: the sources are visited from the left. A function that
  throws ends the \<open>map\<close> (\<open>Inl\<close>), and the sources after it are not called. Otherwise
  the array holds objects and promises; \<open>Promise.all\<close> takes an object as a promise
  already fulfilled with it.
\<close>

fun call_headers :: "'e Header list \<Rightarrow> 'e + 'e Promise list" where
  "call_headers [] = Inr []"
| "call_headers (h # hs) =
     (case header_value h of
        Throws e \<Rightarrow> Inl e
      | Returns item \<Rightarrow>
          (case call_headers hs of Inl e \<Rightarrow> Inl e | Inr ps \<Rightarrow> Inr (Fulfils item # ps))
      | ReturnsPromise p \<Rightarrow>
          (case call_headers hs of Inl e \<Rightarrow> Inl e | Inr ps \<Rightarrow> Inr (p # ps)))"

text \<open>
  \<open>Promise.all\<close>: it rejects as soon as one promise rejects, with that rejection (of
  two rejections at the same moment, the one of the earlier element); it fulfils with
  the values in the order of the array once every promise has fulfilled; it stays
  pending otherwise.
\<close>

fun first_rejection :: "'e Promise list \<Rightarrow> (nat \<times> 'e) option" where
  "first_rejection [] = None"
| "first_rejection (Rejects t e # ps) =
     (case first_rejection ps of
        None \<Rightarrow> Some (t, e)
      | Some (t', e') \<Rightarrow> if t' < t then Some (t', e') else Some (t, e))"
| "first_rejection (p # ps) = first_rejection ps"

fun fulfilled :: "'e Promise list \<Rightarrow> obj list option" where
  "fulfilled [] = Some []"
| "fulfilled (Fulfils item # ps) =
     (case fulfilled ps of None \<Rightarrow> None | Some items \<Rightarrow> Some (item # items))"
| "fulfilled (p # ps) = None"

definition Promise_all :: "'e Promise list \<Rightarrow> ('e + obj list) option" where
  "Promise_all ps =
     (case first_rejection ps of
        Some (t, e) \<Rightarrow> Some (Inl e)
      | None \<Rightarrow> (case fulfilled ps of None \<Rightarrow> None | Some items \<Rightarrow> Some (Inr items)))"

text \<open>\<open>await Promise.all(this.#headers.map(...))\<close>\<close>

definition resolve_headers :: "'e Header list \<Rightarrow> ('e + obj list) option" where
  "resolve_headers hs =
     (case call_headers hs of Inl e \<Rightarrow> Some (Inl e) | Inr ps \<Rightarrow> Promise_all ps)"

text \<open>\<open>.reduce((obj, item) => ({ ...obj, ...item }), {})\<close>\<close>

definition reduce_headers :: "obj list \<Rightarrow> obj" where
  "reduce_headers items = foldl (\<lambda>obj item. obj ++ item) Map.empty items"

subsection \<open>\<open>run\<close> and \<open>runJSON\<close>\<close>

text \<open>
  The second argument of \<open>_fetch\<close>:
  \<open>{ method: this.#method, headers: <the reduced headers>, ...this.#opts }\<close>.
\<close>

definition final_options :: "'e oof \<Rightarrow> obj list \<Rightarrow> obj" where
  "final_options this items =
     [''method'' \<mapsto> JStr (verb (p_method this)),
      ''headers'' \<mapsto> JObj (reduce_headers items)] ++ p_opts this"

text \<open>
  \<open>run\<close> is an \<open>async\<close> function: whatever is thrown inside it, and a rejection of the
  promise it awaits, becomes the rejection of the promise it returns. The call of
  \<open>_fetch\<close> is reached only after the \<open>await\<close>.
\<close>

definition run ::
  "'e transport \<Rightarrow> 'e oof \<Rightarrow> world \<Rightarrow> ('e + 'e Response) option \<times> world" where
  "run net this w =
     (let url = target_url this w
      in case resolve_headers (p_headers this) of
           None \<Rightarrow> (None, w)
         | Some (Inl e) \<Rightarrow> (Some (Inl e), w)
         | Some (Inr items) \<Rightarrow> fetch net url (final_options this items) (p_data this) w)"

text \<open>
  \<open>this.run().then((response) => response.json().then((parsedJSON) =>
  ({ ok: response.ok, status: response.status, ...parsedJSON })))\<close>
\<close>

definition runJSON ::
  "'e transport \<Rightarrow> 'e oof \<Rightarrow> world \<Rightarrow> ('e + obj) option \<times> world" where
  "runJSON net this w =
     (case run net this w of
        (None, w') \<Rightarrow> (None, w')
      | (Some (Inl e), w') \<Rightarrow> (Some (Inl e), w')
      | (Some (Inr response), w') \<Rightarrow>
          (case json response of
             None \<Rightarrow> (None, w')
           | Some (Inl e) \<Rightarrow> (Some (Inl e), w')
           | Some (Inr parsedJSON) \<Rightarrow>
               (Some (Inr ([''ok'' \<mapsto> JBool (ok response),
                            ''status'' \<mapsto> JNum (status response)] ++ parsedJSON)), w')))"

subsection \<open>The specification's notions\<close>

text \<open>
  What a header source resolves to: a plain mapping is its own value, a function its
  return value or the value its promise fulfils with. \<open>None\<close> when the source
  throws, or its promise rejects or stays pending.
\<close>

fun resolved_value :: "'e Header \<Rightarrow> obj option" where
  "resolved_value (Object item) = Some item"
| "resolved_value (Function f) =
     (case f () of
        Returns item \<Rightarrow> Some item
      | ReturnsPromise (Fulfils item) \<Rightarrow> Some item
      | _ \<Rightarrow> None)"

text \<open>The failure of a header source: what its function throws or its promise rejects
  with.\<close>

fun failure :: "'e Header \<Rightarrow> 'e option" where
  "failure (Object item) = None"
| "failure (Function f) =
     (case f () of
        Throws e \<Rightarrow> Some e
      | ReturnsPromise (Rejects t e) \<Rightarrow> Some e
      | _ \<Rightarrow> None)"

text \<open>
  The two ways a header source fails, apart: what its function throws when called, and
  the rejection of the promise it returns, with its moment.
\<close>

fun thrown :: "'e Header \<Rightarrow> 'e option" where
  "thrown (Object item) = None"
| "thrown (Function f) = (case f () of Throws e \<Rightarrow> Some e | _ \<Rightarrow> None)"

fun rejection :: "'e Header \<Rightarrow> (nat \<times> 'e) option" where
  "rejection (Object item) = None"
| "rejection (Function f) =
     (case f () of ReturnsPromise (Rejects t e) \<Rightarrow> Some (t, e) | _ \<Rightarrow> None)"

text \<open>
  Later entries override identical keys of earlier entries: the value of a key in the
  merge is its value in the last mapping that has the key.
\<close>

definition last_writer :: "obj list \<Rightarrow> string \<Rightarrow> jsval option" where
  "last_writer items k =
     (case filter (\<lambda>item. item k \<noteq> None) (rev items) of
        [] \<Rightarrow> None
      | item # earlier \<Rightarrow> item k)"

subsection \<open>Concrete runs\<close>

text \<open>
  A transport for the examples: the server answers every request with status 200 and
  the body \<open>{}\<close>, except that a request whose URL ends in \<open>/missing\<close> gets 404 and
  \<open>{"msg": "not found"}\<close>, one whose URL ends in \<open>/custom\<close> gets 200 and
  \<open>{"ok": "custom"}\<close>, one whose URL ends in \<open>/garbled\<close> gets 200 and a body that
  does not parse, and one whose URL ends in \<open>/down\<close> fails in the network.
\<close>

definition demo_net :: "string transport" where
  "demo_net url opts body =
     (if suffix ''/missing'' url
      then Some (Inr \<lparr>ok = False, status = 404,
                       json = Some (Inr [''msg'' \<mapsto> JStr ''not found''])\<rparr>)
      else if suffix ''/custom'' url
      then Some (Inr \<lparr>ok = True, status = 200,
                       json = Some (Inr [''ok'' \<mapsto> JStr ''custom''])\<rparr>)
      else if suffix ''/garbled'' url
      then Some (Inr \<lparr>ok = True, status = 200, json = Some (Inl ''SyntaxError'')\<rparr>)
      else if suffix ''/down'' url
      then Some (Inl ''NetworkError'')
      else Some (Inr \<lparr>ok = True, status = 200, json = Some (Inr Map.empty)\<rparr>))"

text \<open>
  Builders for the examples: one whose options carry a \<open>headers\<close> key, one with a
  header function that throws, one with a header function whose promise rejects, and
  a \<open>GET\<close> builder that was given data.
\<close>

definition with_options_headers :: "string oof" where
  "with_options_headers =
     options [''headers'' \<mapsto> JObj [''X'' \<mapsto> JStr ''1'']]
       (header (Object [''A'' \<mapsto> JStr ''a'']) (GET ''/test''))"

definition throwing :: "string oof" where
  "throwing = header (Function (\<lambda>u. Throws ''boom'')) (GET ''/test'')"

definition rejecting :: "string oof" where
  "rejecting =
     header (Function (\<lambda>u. ReturnsPromise (Rejects 0 ''denied'')))
       (header (Function (\<lambda>u. ReturnsPromise Pending)) (POST ''/test''))"

text \<open>
  Builders with two failing header sources: two functions that throw; two promises of
  which the one added later rejects first; a promise that rejects at once, followed by
  a function that throws.
\<close>

definition two_throwing :: "string oof" where
  "two_throwing =
     header (Function (\<lambda>u. Throws ''second''))
       (header (Function (\<lambda>u. Throws ''first'')) (GET ''/test''))"

definition racing :: "string oof" where
  "racing =
     header (Function (\<lambda>u. ReturnsPromise (Rejects 2 ''fast'')))
       (header (Function (\<lambda>u. ReturnsPromise (Rejects 5 ''slow''))) (GET ''/test''))"

definition orphaning :: "string oof" where
  "orphaning =
     header (Function (\<lambda>u. Throws ''thrown''))
       (header (Function (\<lambda>u. ReturnsPromise (Rejects 0 ''rejected''))) (GET ''/test''))"

definition get_with_data :: "string oof" where
  "get_with_data = data (JStr ''payload'') (GET ''/test'')"

section \<open>Auxiliary facts\<close>

lemma of_char_Canonicalize:
  "(of_char (Canonicalize c) :: nat) =
     (if 97 \<le> (of_char c :: nat) \<and> (of_char c :: nat) \<le> 122 then of_char c - 32 else of_char c)"
  by (simp add: Canonicalize_def Let_def less_imp_diff_less)

lemma of_char_ascii_lower:
  "(of_char (ascii_lower c) :: nat) =
     (if 65 \<le> (of_char c :: nat) \<and> (of_char c :: nat) \<le> 90 then of_char c + 32 else of_char c)"
  by (simp add: ascii_lower_def Let_def)

lemma Canonicalize_eq_iff:
  assumes "p \<in> set ''https://''"
  shows "Canonicalize p = Canonicalize c \<longleftrightarrow> ascii_lower c = p"
proof -
  have "((of_char (Canonicalize p) :: nat) = of_char (Canonicalize c)) =
          ((of_char (ascii_lower c) :: nat) = of_char p)"
    using assms unfolding of_char_Canonicalize of_char_ascii_lower
    by (auto simp del: of_char_eq_iff)
  then show ?thesis
    by (simp only: of_char_eq_iff)
qed

lemma match_literal_prefix:
  "set pat \<subseteq> set ''https://'' \<Longrightarrow> match_literal pat s \<longleftrightarrow> prefix pat (map ascii_lower s)"
proof (induction pat s rule: match_literal.induct)
  case (1 s)
  show ?case by simp
next
  case (2 p ps)
  show ?case by simp
next
  case (3 p ps c cs)
  then show ?case using Canonicalize_eq_iff [of p c] by auto
qed

lemma path_match_iff: "path_match path \<longleftrightarrow> contains_scheme path"
proof (induction path)
  case Nil
  show ?case by (simp add: contains_scheme_def)
next
  case (Cons c cs)
  have "match_literal ''https://'' (c # cs) \<longleftrightarrow> prefix ''https://'' (map ascii_lower (c # cs))"
    by (rule match_literal_prefix) simp
  moreover have "match_literal ''http://'' (c # cs) \<longleftrightarrow> prefix ''http://'' (map ascii_lower (c # cs))"
    by (rule match_literal_prefix) simp
  ultimately show ?case
    using Cons.IH by (auto simp: contains_scheme_def sublist_Cons_right simp del: match_literal.simps)
qed


lemma fulfilled_map_Fulfils: "fulfilled (map Fulfils items) = Some items"
  by (induction items) auto

lemma fulfilled_SomeD: "fulfilled ps = Some items \<Longrightarrow> ps = map Fulfils items"
proof (induction ps arbitrary: items rule: fulfilled.induct)
  case 1
  then show ?case by simp
next
  case (2 item ps)
  then show ?case by (auto split: option.splits)
qed simp_all

lemma first_rejection_Fulfils: "first_rejection (map Fulfils items) = None"
  by (induction items) auto

lemma Promise_all_Inr_iff: "Promise_all ps = Some (Inr items) \<longleftrightarrow> ps = map Fulfils items"
proof
  assume "Promise_all ps = Some (Inr items)"
  then have "fulfilled ps = Some items"
    by (auto simp: Promise_all_def split: option.splits)
  then show "ps = map Fulfils items" by (rule fulfilled_SomeD)
next
  assume "ps = map Fulfils items"
  then show "Promise_all ps = Some (Inr items)"
    by (simp add: Promise_all_def fulfilled_map_Fulfils first_rejection_Fulfils)
qed

lemma call_headers_resolved:
  "map resolved_value hs = map Some items \<Longrightarrow> call_headers hs = Inr (map Fulfils items)"
proof (induction hs arbitrary: items)
  case Nil
  then show ?case by simp
next
  case (Cons h hs)
  from Cons.prems obtain item rest where items: "items = item # rest"
    and h: "resolved_value h = Some item" and rest: "map resolved_value hs = map Some rest"
    by (cases items) auto
  from Cons.IH [OF rest] have IH: "call_headers hs = Inr (map Fulfils rest)" .
  show ?case
  proof (cases h)
    case (Object x)
    with h IH items show ?thesis by simp
  next
    case (Function f)
    with h IH items show ?thesis
      by (auto split: Returned.splits Promise.splits)
  qed
qed

lemma call_headers_FulfilsD:
  "call_headers hs = Inr (map Fulfils items) \<Longrightarrow> map resolved_value hs = map Some items"
proof (induction hs arbitrary: items)
  case Nil
  then show ?case by simp
next
  case (Cons h hs)
  from Cons.prems obtain ps where tl: "call_headers hs = Inr ps"
    by (auto split: Returned.splits sum.splits)
  with Cons.prems obtain item rest where items: "items = item # rest"
    and ps: "ps = map Fulfils rest"
    by (cases items) (auto split: Returned.splits)
  from Cons.IH tl ps have IH: "map resolved_value hs = map Some rest" by simp
  show ?case
  proof (cases h)
    case (Object x)
    with Cons.prems tl items IH show ?thesis by simp
  next
    case (Function f)
    with Cons.prems tl items IH show ?thesis
      by (auto split: Returned.splits)
  qed
qed

lemma resolve_headers_Inr_iff:
  "resolve_headers hs = Some (Inr items) \<longleftrightarrow> map resolved_value hs = map Some items"
proof
  assume "resolve_headers hs = Some (Inr items)"
  then obtain ps where "call_headers hs = Inr ps" and "Promise_all ps = Some (Inr items)"
    by (auto simp: resolve_headers_def split: sum.splits)
  then have "call_headers hs = Inr (map Fulfils items)"
    by (simp add: Promise_all_Inr_iff)
  then show "map resolved_value hs = map Some items" by (rule call_headers_FulfilsD)
next
  assume "map resolved_value hs = map Some items"
  then have "call_headers hs = Inr (map Fulfils items)" by (rule call_headers_resolved)
  then show "resolve_headers hs = Some (Inr items)"
    by (simp add: resolve_headers_def Promise_all_Inr_iff)
qed

lemma foldl_merge_last:
  "foldl (\<lambda>obj item. obj ++ item) m items k =
     (case filter (\<lambda>item. item k \<noteq> None) (rev items) of [] \<Rightarrow> m k | item # earlier \<Rightarrow> item k)"
proof (induction items rule: rev_induct)
  case Nil
  show ?case by simp
next
  case (snoc x xs)
  then show ?case by (auto simp: map_add_def split: option.splits list.splits)
qed

lemma reduce_headers_last_writer: "reduce_headers items k = last_writer items k"
  by (simp add: reduce_headers_def last_writer_def foldl_merge_last)


lemma run_resolved:
  assumes "map resolved_value (p_headers this) = map Some items"
  shows "run net this w =
           (net (target_url this w) (final_options this items) (p_data this),
            w\<lparr>fetch_calls := fetch_calls w @
                 [(target_url this w, final_options this items, p_data this)]\<rparr>)"
  using assms by (simp add: run_def fetch_def Let_def resolve_headers_Inr_iff [symmetric])

lemma run_not_resolved:
  assumes "\<not> (\<exists>items. map resolved_value (p_headers this) = map Some items)"
  shows "snd (run net this w) = w"
proof (cases "resolve_headers (p_headers this)")
  case None
  then show ?thesis by (simp add: run_def)
next
  case (Some r)
  with assms show ?thesis
    by (cases r) (auto simp: run_def resolve_headers_Inr_iff)
qed

lemma runJSON_world: "snd (runJSON net this w) = snd (run net this w)"
  by (auto simp: runJSON_def split: prod.splits option.splits sum.splits)

lemma target_url_spec:
  "target_url this w =
     (if contains_scheme (p_path this) then p_path this else baseUrl w @ p_path this)"
  by (simp add: target_url_def path_match_iff)

lemma call_headers_Inl:
  "call_headers hs = Inl e \<Longrightarrow> \<exists>f. Function f \<in> set hs \<and> f () = Throws e"
proof (induction hs)
  case Nil
  then show ?case by simp
next
  case (Cons h hs)
  then show ?case
    by (cases h) (auto split: Returned.splits sum.splits)
qed

lemma call_headers_Rejects:
  "call_headers hs = Inr ps \<Longrightarrow> Rejects t e \<in> set ps \<Longrightarrow>
     \<exists>f. Function f \<in> set hs \<and> f () = ReturnsPromise (Rejects t e)"
proof (induction hs arbitrary: ps)
  case Nil
  then show ?case by simp
next
  case (Cons h hs)
  then show ?case
    by (cases h) (fastforce split: Returned.splits sum.splits)+
qed

lemma call_headers_promise:
  "call_headers hs = Inr ps \<Longrightarrow> Function f \<in> set hs \<Longrightarrow> f () = ReturnsPromise p \<Longrightarrow>
     p \<in> set ps"
proof (induction hs arbitrary: ps)
  case Nil
  then show ?case by simp
next
  case (Cons h hs)
  then show ?case
    by (cases h) (auto split: Returned.splits sum.splits)
qed

lemma first_rejection_mem:
  "first_rejection ps = Some (t, e) \<Longrightarrow> Rejects t e \<in> set ps"
proof (induction ps arbitrary: t e rule: first_rejection.induct)
  case 1
  then show ?case by simp
next
  case (2 t' e' ps)
  then show ?case by (auto split: option.splits if_splits)
qed auto

lemma first_rejection_None:
  "first_rejection ps = None \<Longrightarrow> Rejects t e \<notin> set ps"
proof (induction ps rule: first_rejection.induct)
  case 1
  then show ?case by simp
next
  case (2 t' e' ps)
  then show ?case by (auto split: option.splits if_splits)
qed auto

lemma failure_Some_iff:
  "failure h = Some e \<longleftrightarrow>
     (\<exists>f. h = Function f \<and> (f () = Throws e \<or> (\<exists>t. f () = ReturnsPromise (Rejects t e))))"
  by (cases h) (auto split: Returned.splits Promise.splits)

lemma resolve_headers_Inl:
  assumes "resolve_headers hs = Some (Inl e)"
  shows "\<exists>h \<in> set hs. failure h = Some e"
proof (cases "call_headers hs")
  case (Inl e')
  with assms have "e' = e" by (simp add: resolve_headers_def)
  with Inl call_headers_Inl [of hs e] show ?thesis
    by (auto simp: failure_Some_iff)
next
  case (Inr ps)
  with assms obtain t where "first_rejection ps = Some (t, e)"
    by (auto simp: resolve_headers_def Promise_all_def split: option.splits)
  then have "Rejects t e \<in> set ps" by (rule first_rejection_mem)
  with Inr call_headers_Rejects [of hs ps t e] show ?thesis
    by (auto simp: failure_Some_iff)
qed

lemma failure_resolve_headers:
  assumes "h \<in> set hs" and "failure h = Some e"
  shows "\<exists>e'. resolve_headers hs = Some (Inl e')"
proof (cases "call_headers hs")
  case (Inl e')
  then show ?thesis by (simp add: resolve_headers_def)
next
  case (Inr ps)
  from assms obtain f where f: "Function f \<in> set hs"
    and "f () = Throws e \<or> (\<exists>t. f () = ReturnsPromise (Rejects t e))"
    by (auto simp: failure_Some_iff)
  then consider "f () = Throws e" | t where "f () = ReturnsPromise (Rejects t e)"
    by blast
  then show ?thesis
  proof cases
    case 1
    have False using Inr f 1
    proof (induction hs arbitrary: ps)
      case Nil
      then show ?case by simp
    next
      case (Cons h hs)
      then show ?case by (cases h) (auto split: Returned.splits sum.splits)
    qed
    then show ?thesis ..
  next
    case 2
    with Inr f have "Rejects t e \<in> set ps" by (rule call_headers_promise)
    then have "first_rejection ps \<noteq> None"
      using first_rejection_None [of ps t e] by blast
    with Inr show ?thesis
      by (auto simp: resolve_headers_def Promise_all_def split: option.splits)
  qed
qed

lemma run_rejected:
  "resolve_headers (p_headers this) = Some (Inl e) \<Longrightarrow> run net this w = (Some (Inl e), w)"
  by (simp add: run_def)

lemma runJSON_run_rejected:
  "fst (run net this w) = Some (Inl e) \<Longrightarrow> fst (runJSON net this w) = Some (Inl e)"
  by (cases "run net this w") (simp add: runJSON_def)

lemma p_headers_header_chain:
  "p_headers (foldl (\<lambda>b h. header h b) this hs) = p_headers this @ hs"
  by (induction hs arbitrary: this) (simp_all add: header_def)

lemma run_urls:
  assumes "map resolved_value (p_headers this) = map Some items"
  shows "map fst (fetch_calls (snd (run net this w))) =
           map fst (fetch_calls w) @ [target_url this w]"
  by (simp add: run_resolved [OF assms])

lemma run_baseUrl: "baseUrl (snd (run net this w)) = baseUrl w"
proof (cases "\<exists>items. map resolved_value (p_headers this) = map Some items")
  case True
  then obtain items where "map resolved_value (p_headers this) = map Some items" ..
  then show ?thesis by (simp add: run_resolved)
next
  case False
  then show ?thesis by (simp add: run_not_resolved)
qed

lemma final_options_override:
  "p_opts this k = Some v \<Longrightarrow> final_options this items k = Some v"
  by (simp add: final_options_def map_add_def)

lemma final_options_default:
  "p_opts this k = None \<Longrightarrow>
     final_options this items k =
       [''method'' \<mapsto> JStr (verb (p_method this)),
        ''headers'' \<mapsto> JObj (reduce_headers items)] k"
  by (simp add: final_options_def map_add_def)

lemma final_options_headers_shadowed:
  assumes "p_opts this ''headers'' \<noteq> None"
  shows "final_options this items = final_options this items'"
proof
  fix k
  show "final_options this items k = final_options this items' k"
    using assms by (cases "p_opts this k") (auto simp: final_options_def map_add_def)
qed

lemma runJSON_parsed:
  assumes "fst (run net this w) = Some (Inr response)"
    and "json response = Some (Inr parsedJSON)"
  shows "runJSON net this w =
           (Some (Inr ([''ok'' \<mapsto> JBool (ok response),
                        ''status'' \<mapsto> JNum (status response)] ++ parsedJSON)),
            snd (run net this w))"
  using assms by (cases "run net this w") (simp add: runJSON_def)

lemma foldl_merge_from:
  "foldl (\<lambda>obj item. obj ++ item) m items = m ++ foldl (\<lambda>obj item. obj ++ item) Map.empty items"
proof (induction items rule: rev_induct)
  case Nil
  show ?case by simp
next
  case (snoc x xs)
  then show ?case by (simp add: map_add_assoc)
qed

lemma reduce_headers_Cons: "reduce_headers (item # items) = item ++ reduce_headers items"
  using foldl_merge_from [of item items] by (simp add: reduce_headers_def)

lemma p_headers_constructor:
  "p_headers (constructor m path opts None :: 'e oof) = []"
  "p_headers (constructor m path opts (Some (Single h))) = [h]"
  "p_headers (constructor m path opts (Some (Array hs))) = hs"
  by (simp_all add: constructor_def)

lemma run_call_count:
  "length (fetch_calls (snd (run net this w))) \<le> length (fetch_calls w) + 1"
proof (cases "\<exists>items. map resolved_value (p_headers this) = map Some items")
  case True
  then obtain items where "map resolved_value (p_headers this) = map Some items" ..
  then show ?thesis by (simp add: run_resolved)
next
  case False
  then show ?thesis by (simp add: run_not_resolved)
qed

lemma run_throwing: "run net throwing w = (Some (Inl ''boom''), w)"
  by (simp add: run_def Let_def resolve_headers_def throwing_def header_def GET_def
      constructor_def)

lemma failing_source_run:
  assumes "h \<in> set (p_headers this)" and "failure h = Some e"
  shows "\<exists>e'. (\<exists>h' \<in> set (p_headers this). failure h' = Some e')
           \<and> run net this w = (Some (Inl e'), w)
           \<and> runJSON net this w = (Some (Inl e'), w)"
proof -
  from failure_resolve_headers [OF assms] obtain e'
    where e': "resolve_headers (p_headers this) = Some (Inl e')" ..
  then have "\<exists>h' \<in> set (p_headers this). failure h' = Some e'"
    by (rule resolve_headers_Inl)
  moreover from e' have r: "run net this w = (Some (Inl e'), w)"
    by (rule run_rejected)
  moreover from r have "runJSON net this w = (Some (Inl e'), w)"
    by (simp add: runJSON_def)
  ultimately show ?thesis by blast
qed

lemma run_Inl_origin:
  assumes "fst (run net this w) = Some (Inl e)"
  shows "(\<exists>h' \<in> set (p_headers this). failure h' = Some e)
     \<or> (\<exists>items. map resolved_value (p_headers this) = map Some items
            \<and> net (target_url this w) (final_options this items) (p_data this) = Some (Inl e))"
proof (cases "resolve_headers (p_headers this)")
  case None
  with assms show ?thesis by (simp add: run_def)
next
  case (Some r)
  show ?thesis
  proof (cases r)
    case (Inl e')
    with Some assms have "e' = e" by (simp add: run_def)
    with Some Inl have "resolve_headers (p_headers this) = Some (Inl e)" by simp
    then have "\<exists>h' \<in> set (p_headers this). failure h' = Some e"
      by (rule resolve_headers_Inl)
    then show ?thesis by (rule disjI1)
  next
    case (Inr items)
    with Some have res: "map resolved_value (p_headers this) = map Some items"
      by (simp add: resolve_headers_Inr_iff)
    with assms have "net (target_url this w) (final_options this items) (p_data this) = Some (Inl e)"
      by (simp add: run_resolved)
    with res have "\<exists>items. map resolved_value (p_headers this) = map Some items
            \<and> net (target_url this w) (final_options this items) (p_data this) = Some (Inl e)"
      by (intro exI conjI)
    then show ?thesis by (rule disjI2)
  qed
qed

lemma runJSON_Inl_origin:
  assumes "fst (runJSON net this w) = Some (Inl e)"
  shows "fst (run net this w) = Some (Inl e)
     \<or> (\<exists>response. fst (run net this w) = Some (Inr response) \<and> json response = Some (Inl e))"
  using assms
  by (cases "run net this w") (auto simp: runJSON_def split: option.splits sum.splits)

lemma runJSON_Inr_origin:
  assumes "fst (runJSON net this w) = Some (Inr result)"
  shows "\<exists>items response parsedJSON.
           map resolved_value (p_headers this) = map Some items
           \<and> net (target_url this w) (final_options this items) (p_data this) = Some (Inr response)
           \<and> json response = Some (Inr parsedJSON)"
proof -
  from assms obtain response parsedJSON
    where run: "fst (run net this w) = Some (Inr response)"
      and parsed: "json response = Some (Inr parsedJSON)"
    by (cases "run net this w") (auto simp: runJSON_def split: option.splits sum.splits)
  show ?thesis
  proof (cases "resolve_headers (p_headers this)")
    case None
    with run show ?thesis by (simp add: run_def)
  next
    case (Some r)
    show ?thesis
    proof (cases r)
      case (Inl e')
      with Some run show ?thesis by (simp add: run_def)
    next
      case (Inr items)
      with Some have res: "map resolved_value (p_headers this) = map Some items"
        by (simp add: resolve_headers_Inr_iff)
      with run have "net (target_url this w) (final_options this items) (p_data this)
          = Some (Inr response)"
        by (simp add: run_resolved)
      with res parsed show ?thesis by blast
    qed
  qed
qed

lemma runJSON_parse_rejected:
  assumes "fst (run net this w) = Some (Inr response)" and "json response = Some (Inl e)"
  shows "fst (runJSON net this w) = Some (Inl e)"
  using assms by (cases "run net this w") (simp add: runJSON_def)

lemma run_transport_rejected:
  assumes "map resolved_value (p_headers this) = map Some items"
    and "net (target_url this w) (final_options this items) (p_data this) = Some (Inl e)"
  shows "fst (run net this w) = Some (Inl e)"
  using assms by (simp add: run_resolved)

lemma thrown_None_iff: "thrown h = None \<longleftrightarrow> (\<forall>e. header_value h \<noteq> Throws e)"
  by (cases h) (auto split: Returned.splits)

lemma failure_thrown_rejection:
  "failure h = Some e \<longleftrightarrow> thrown h = Some e \<or> (\<exists>t. rejection h = Some (t, e))"
  by (cases h) (auto split: Returned.splits Promise.splits)

lemma call_headers_first_throw:
  assumes "f () = Throws e"
  shows "\<forall>h \<in> set before. thrown h = None \<Longrightarrow>
           call_headers (before @ Function f # after) = Inl e"
proof (induction before)
  case Nil
  from assms show ?case by simp
next
  case (Cons h before)
  then have IH: "call_headers (before @ Function f # after) = Inl e"
    and h: "\<forall>e'. header_value h \<noteq> Throws e'"
    by (simp_all add: thrown_None_iff)
  from h show ?case
    by (cases "header_value h") (simp_all add: IH)
qed

lemma call_headers_total:
  "\<forall>h \<in> set hs. thrown h = None \<Longrightarrow> \<exists>ps. call_headers hs = Inr ps"
proof (induction hs)
  case Nil
  show ?case by simp
next
  case (Cons h hs)
  then obtain ps where ps: "call_headers hs = Inr ps"
    and h: "\<forall>e'. header_value h \<noteq> Throws e'"
    by (auto simp: thrown_None_iff)
  from h show ?case
    by (cases "header_value h") (simp_all add: ps)
qed

lemma call_headers_promises:
  "call_headers hs = Inr ps \<Longrightarrow>
     list_all2 (\<lambda>h p. \<forall>t e. (p = Rejects t e) = (rejection h = Some (t, e))) hs ps"
proof (induction hs arbitrary: ps)
  case Nil
  then show ?case by simp
next
  case (Cons h hs)
  from Cons.prems obtain qs where qs: "call_headers hs = Inr qs"
    by (auto split: Returned.splits sum.splits)
  note IH = Cons.IH [OF qs]
  show ?case
  proof (cases h)
    case (Object item)
    with Cons.prems qs IH show ?thesis by auto
  next
    case (Function g)
    with Cons.prems qs IH show ?thesis
      by (auto split: Returned.splits Promise.splits)
  qed
qed

lemma list_all2_mem2:
  "list_all2 P xs ys \<Longrightarrow> y \<in> set ys \<Longrightarrow> \<exists>x \<in> set xs. P x y"
  by (induction rule: list_all2_induct) auto

lemma first_rejection_head:
  assumes "\<forall>t' e'. Rejects t' e' \<in> set qs \<longrightarrow> t \<le> t'"
  shows "first_rejection (Rejects t e # qs) = Some (t, e)"
proof (cases "first_rejection qs")
  case None
  then show ?thesis by simp
next
  case (Some r)
  obtain t' e' where r: "r = (t', e')" by (cases r)
  with Some have "Rejects t' e' \<in> set qs" by (simp add: first_rejection_mem)
  with assms have "t \<le> t'" by blast
  with Some r show ?thesis by simp
qed

lemma first_rejection_winner:
  assumes "\<forall>t' e'. Rejects t' e' \<in> set qs \<longrightarrow> t \<le> t'"
  shows "\<forall>t' e'. Rejects t' e' \<in> set ps \<longrightarrow> t < t' \<Longrightarrow>
           first_rejection (ps @ Rejects t e # qs) = Some (t, e)"
proof (induction ps)
  case Nil
  from assms show ?case by (simp only: append_Nil first_rejection_head)
next
  case (Cons p ps)
  from Cons.prems have "\<forall>t' e'. Rejects t' e' \<in> set ps \<longrightarrow> t < t'" by simp
  then have IH: "first_rejection (ps @ Rejects t e # qs) = Some (t, e)" by (rule Cons.IH)
  show ?case
  proof (cases p)
    case (Rejects t'' e'')
    with Cons.prems have "t < t''" by simp
    with Rejects IH show ?thesis by simp
  qed (simp_all add: IH)
qed

lemma resolve_headers_first_rejection:
  assumes hs: "hs = before @ Function f # after"
    and f: "f () = ReturnsPromise (Rejects t e)"
    and no_throw: "\<forall>h \<in> set hs. thrown h = None"
    and before: "\<forall>h \<in> set before. \<forall>t' e'. rejection h = Some (t', e') \<longrightarrow> t < t'"
    and after: "\<forall>h \<in> set after. \<forall>t' e'. rejection h = Some (t', e') \<longrightarrow> t \<le> t'"
  shows "resolve_headers hs = Some (Inl e)"
proof -
  let ?R = "\<lambda>h p. \<forall>t e. (p = Rejects t e) = (rejection h = Some (t, e))"
  from call_headers_total [OF no_throw] obtain ps where ps: "call_headers hs = Inr ps" ..
  then have "list_all2 ?R hs ps" by (rule call_headers_promises)
  with hs obtain ps1 p ps2 where split: "ps = ps1 @ p # ps2"
    and R1: "list_all2 ?R before ps1" and R: "?R (Function f) p"
    and R2: "list_all2 ?R after ps2"
    by (auto simp: list_all2_append1 list_all2_Cons1)
  from R f have p: "p = Rejects t e" by simp
  have early: "\<forall>t' e'. Rejects t' e' \<in> set ps1 \<longrightarrow> t < t'"
  proof (intro allI impI)
    fix t' e'
    assume "Rejects t' e' \<in> set ps1"
    with R1 obtain h where hmem: "h \<in> set before" and hR: "?R h (Rejects t' e')"
      using list_all2_mem2 [of ?R before ps1 "Rejects t' e'"] by blast
    from hR [rule_format, of t' e'] have "rejection h = Some (t', e')" by simp
    with before hmem show "t < t'" by blast
  qed
  have late: "\<forall>t' e'. Rejects t' e' \<in> set ps2 \<longrightarrow> t \<le> t'"
  proof (intro allI impI)
    fix t' e'
    assume "Rejects t' e' \<in> set ps2"
    with R2 obtain h where hmem: "h \<in> set after" and hR: "?R h (Rejects t' e')"
      using list_all2_mem2 [of ?R after ps2 "Rejects t' e'"] by blast
    from hR [rule_format, of t' e'] have "rejection h = Some (t', e')" by simp
    with after hmem show "t \<le> t'" by blast
  qed
  have "first_rejection ps = Some (t, e)"
    unfolding split p by (rule first_rejection_winner [OF late early])
  with ps show ?thesis
    by (simp add: resolve_headers_def Promise_all_def)
qed

lemma run_runJSON_rejected:
  assumes "resolve_headers (p_headers this) = Some (Inl e)"
  shows "run net this w = (Some (Inl e), w) \<and> runJSON net this w = (Some (Inl e), w)"
proof -
  from assms have "run net this w = (Some (Inl e), w)" by (rule run_rejected)
  then show ?thesis by (simp add: runJSON_def)
qed

lemma first_throw_wins:
  assumes "p_headers this = before @ Function f # after" and "f () = Throws e"
    and "\<forall>h \<in> set before. thrown h = None"
  shows "run net this w = (Some (Inl e), w) \<and> runJSON net this w = (Some (Inl e), w)"
proof -
  from assms have "call_headers (p_headers this) = Inl e"
    by (simp add: call_headers_first_throw)
  then have "resolve_headers (p_headers this) = Some (Inl e)"
    by (simp add: resolve_headers_def)
  then show ?thesis by (rule run_runJSON_rejected)
qed

lemma first_rejection_wins:
  assumes "p_headers this = before @ Function f # after"
    and "f () = ReturnsPromise (Rejects t e)"
    and "\<forall>h \<in> set (p_headers this). thrown h = None"
    and "\<forall>h \<in> set before. \<forall>t' e'. rejection h = Some (t', e') \<longrightarrow> t < t'"
    and "\<forall>h \<in> set after. \<forall>t' e'. rejection h = Some (t', e') \<longrightarrow> t \<le> t'"
  shows "run net this w = (Some (Inl e), w) \<and> runJSON net this w = (Some (Inl e), w)"
proof -
  from assms have "resolve_headers (p_headers this) = Some (Inl e)"
    by (rule resolve_headers_first_rejection)
  then show ?thesis by (rule run_runJSON_rejected)
qed

section \<open>The claims\<close>

subsection \<open>The target URL\<close>

text \<open>
  C1. The URL that \<open>run\<close> resolves is the path itself when the path contains
  \<open>http://\<close> or \<open>https://\<close> somewhere, in any mix of upper and lower case, whatever
  the base URL is; otherwise it is the base URL followed by the path, joined as they
  are. When the header sources resolve, that URL is the first argument of the call of
  the transport.
\<close>

theorem run_resolves_url:
  "target_url this w =
     (if contains_scheme (p_path this) then p_path this else baseUrl w @ p_path this)
   \<and> (map resolved_value (p_headers this) = map Some items \<longrightarrow>
        map fst (fetch_calls (snd (run net this w))) =
          map fst (fetch_calls w) @
            [if contains_scheme (p_path this) then p_path this
             else baseUrl w @ p_path this])"
  using run_urls [of this items net w] by (simp add: target_url_spec)

text \<open>
  The runs of the test script: base \<open>http://localhost:3000\<close> and path \<open>/test\<close>; a path
  with a scheme in upper case behind other characters; and a base ending in a slash
  with a path starting with two, which keep all three.
\<close>

theorem run_resolves_url_witness:
  "map resolved_value (p_headers (GET ''/test'' :: string oof)) = map Some []
   \<and> map fst (fetch_calls (snd (run demo_net (GET ''/test'')
         (set_baseUrl ''http://localhost:3000'' initial)))) = [''http://localhost:3000/test'']
   \<and> contains_scheme ''x-HTTPS://h/t''
   \<and> target_url (GET ''x-HTTPS://h/t'' :: string oof)
         (set_baseUrl ''http://localhost:3000'' initial) = ''x-HTTPS://h/t''
   \<and> target_url (GET ''//test'' :: string oof)
         (set_baseUrl ''http://localhost:3000/'' initial) = ''http://localhost:3000///test''"
  using run_resolves_url [of "GET ''/test'' :: string oof"
      "set_baseUrl ''http://localhost:3000'' initial" "[]" demo_net]
    run_resolves_url [of "GET ''x-HTTPS://h/t'' :: string oof"
      "set_baseUrl ''http://localhost:3000'' initial" "[]" demo_net]
    run_resolves_url [of "GET ''//test'' :: string oof"
      "set_baseUrl ''http://localhost:3000/'' initial" "[]" demo_net]
  by (simp add: path_match_iff [symmetric] Canonicalize_def char_of_eq_iff GET_def
      constructor_def set_baseUrl_def initial_def)

text \<open>
  C9. The base URL is read when \<open>run\<close> is called. A builder holds no base URL (no
  constructor and no chained call takes the state), so a builder \<open>this\<close> made at any
  earlier moment, with a path without scheme, resolves against the value that the
  last assignment before the call of \<open>run\<close> has stored; another value there gives
  another URL.
\<close>

theorem base_url_read_at_run:
  assumes "\<not> contains_scheme (p_path this)"
  shows "target_url this (set_baseUrl url w) = url @ p_path this
    \<and> (map resolved_value (p_headers this) = map Some items \<longrightarrow>
         map fst (fetch_calls (snd (run net this (set_baseUrl url w)))) =
           map fst (fetch_calls w) @ [url @ p_path this])
    \<and> (url' \<noteq> url \<longrightarrow>
         target_url this (set_baseUrl url' w) \<noteq> target_url this (set_baseUrl url w))"
  using assms run_urls [of this items net "set_baseUrl url w"]
  by (simp add: target_url_spec set_baseUrl_def)

text \<open>The base URL is set, then set again, and only then \<open>run\<close> is called.\<close>

theorem base_url_read_at_run_witness:
  "\<not> contains_scheme (p_path (GET ''/test'' :: string oof))
   \<and> map resolved_value (p_headers (GET ''/test'' :: string oof)) = map Some []
   \<and> map fst (fetch_calls (snd (run demo_net (GET ''/test'')
         (set_baseUrl ''http://b:2'' (set_baseUrl ''http://a:1'' initial))))) = [''http://b:2/test'']
   \<and> ''http://a:1'' \<noteq> ''http://b:2''
   \<and> target_url (GET ''/test'' :: string oof) (set_baseUrl ''http://a:1'' initial)
       \<noteq> target_url (GET ''/test'' :: string oof) (set_baseUrl ''http://b:2'' initial)"
  using base_url_read_at_run [of "GET ''/test'' :: string oof" "''http://b:2''"
      "set_baseUrl ''http://a:1'' initial" "[]" demo_net "''http://a:1''"]
  by (simp add: path_match_iff [symmetric] Canonicalize_def char_of_eq_iff GET_def
      constructor_def set_baseUrl_def initial_def target_url_def)

text \<open>
  C10. The base URL starts as the empty string, and neither \<open>run\<close> nor \<open>runJSON\<close>
  changes it. So as long as no caller has assigned it, a path without scheme resolves
  to the path itself.
\<close>

theorem initial_base_url_empty:
  "baseUrl initial = ''''
   \<and> baseUrl (snd (run net that w)) = baseUrl w
   \<and> baseUrl (snd (runJSON net that w)) = baseUrl w
   \<and> (\<not> contains_scheme (p_path this) \<and> baseUrl w = baseUrl initial \<longrightarrow>
        target_url this w = p_path this
        \<and> (map resolved_value (p_headers this) = map Some items \<longrightarrow>
             map fst (fetch_calls (snd (run net this w))) =
               map fst (fetch_calls w) @ [p_path this]))"
  using run_urls [of this items net w]
  by (simp add: target_url_spec initial_def run_baseUrl runJSON_world)

text \<open>A first run, and a second one in the state the first one leaves.\<close>

theorem initial_base_url_empty_witness:
  "\<not> contains_scheme (p_path (GET ''/test'' :: string oof))
   \<and> baseUrl (snd (run demo_net (GET ''/other'') initial)) = baseUrl initial
   \<and> target_url (GET ''/test'' :: string oof) (snd (run demo_net (GET ''/other'') initial)) = ''/test''
   \<and> map fst (fetch_calls (snd (run demo_net (GET ''/test'') initial))) = [''/test'']"
  using initial_base_url_empty [of demo_net "GET ''/other''" initial "GET ''/test'' :: string oof" "[]"]
    initial_base_url_empty [of demo_net "GET ''/other''" "snd (run demo_net (GET ''/other'') initial)"
      "GET ''/test'' :: string oof" "[]"]
  by (simp add: path_match_iff [symmetric] Canonicalize_def char_of_eq_iff GET_def
      constructor_def initial_def)

subsection \<open>The options and the JSON wrapper\<close>

text \<open>
  C3. When the header sources resolve, \<open>run\<close> calls the transport with the options
  \<open>{ method, headers: mergedHeaders, ...options }\<close>. The options record is spread
  last: every key it has keeps its value from the options record, and every other key
  keeps the computed one. In particular a \<open>headers\<close> key of the options record is the
  \<open>headers\<close> of the request, and then the final options are the same whatever the
  header sources resolved to: the merged mapping is discarded.
\<close>

theorem options_spread_last:
  assumes "map resolved_value (p_headers this) = map Some items"
  shows "fetch_calls (snd (run net this w)) =
           fetch_calls w @ [(target_url this w, final_options this items, p_data this)]
    \<and> final_options this items =
         [''method'' \<mapsto> JStr (verb (p_method this)),
          ''headers'' \<mapsto> JObj (reduce_headers items)] ++ p_opts this
    \<and> (\<forall>k v. p_opts this k = Some v \<longrightarrow> final_options this items k = Some v)
    \<and> (\<forall>k. p_opts this k = None \<longrightarrow>
          final_options this items k =
            [''method'' \<mapsto> JStr (verb (p_method this)),
             ''headers'' \<mapsto> JObj (reduce_headers items)] k)
    \<and> (\<forall>v. p_opts this ''headers'' = Some v \<longrightarrow>
          final_options this items ''headers'' = Some v
          \<and> (\<forall>items'. final_options this items' = final_options this items))"
proof -
  have calls: "fetch_calls (snd (run net this w)) =
          fetch_calls w @ [(target_url this w, final_options this items, p_data this)]"
    by (simp add: run_resolved [OF assms])
  have spread: "final_options this items =
         [''method'' \<mapsto> JStr (verb (p_method this)),
          ''headers'' \<mapsto> JObj (reduce_headers items)] ++ p_opts this"
    by (simp only: final_options_def)
  have override: "\<forall>k v. p_opts this k = Some v \<longrightarrow> final_options this items k = Some v"
    using final_options_override [of this _ _ items] by blast
  have default: "\<forall>k. p_opts this k = None \<longrightarrow>
          final_options this items k =
            [''method'' \<mapsto> JStr (verb (p_method this)),
             ''headers'' \<mapsto> JObj (reduce_headers items)] k"
    using final_options_default [of this _ items] by blast
  have shadow: "\<forall>v. p_opts this ''headers'' = Some v \<longrightarrow>
          final_options this items ''headers'' = Some v
          \<and> (\<forall>items'. final_options this items' = final_options this items)"
  proof (intro allI impI conjI)
    fix v items'
    assume v: "p_opts this ''headers'' = Some v"
    then show "final_options this items ''headers'' = Some v"
      by (rule final_options_override)
    from v have "p_opts this ''headers'' \<noteq> None" by simp
    then show "final_options this items' = final_options this items"
      by (rule final_options_headers_shadowed)
  qed
  show ?thesis
    by (rule conjI [OF calls conjI [OF spread conjI [OF override conjI [OF default shadow]]]])
qed

text \<open>
  The example of the specification: \<open>options({headers: {"X": "1"}})\<close> after a header
  source \<open>{"A": "a"}\<close>.
\<close>

theorem options_spread_last_witness:
  "map resolved_value (p_headers with_options_headers) = map Some [[''A'' \<mapsto> JStr ''a'']]
   \<and> p_opts with_options_headers ''headers'' = Some (JObj [''X'' \<mapsto> JStr ''1''])
   \<and> map (\<lambda>c. fst (snd c) ''headers'') (fetch_calls (snd (run demo_net with_options_headers initial)))
       = [Some (JObj [''X'' \<mapsto> JStr ''1''])]
   \<and> map (\<lambda>c. fst (snd c) ''method'') (fetch_calls (snd (run demo_net with_options_headers initial)))
       = [Some (JStr ''GET'')]"
  using options_spread_last [of with_options_headers "[[''A'' \<mapsto> JStr ''a'']]" demo_net initial]
  by (simp add: with_options_headers_def options_def header_def GET_def constructor_def
      initial_def final_options_def)

text \<open>
  C4. When \<open>run\<close> yields a response and its body parses, \<open>runJSON\<close> yields
  \<open>{ ok: response.ok, status: response.status, ...parsedBody }\<close> and makes no other
  change to the state than \<open>run\<close>. Every key of the parsed body has the body's value
  in the result, the keys \<open>ok\<close> and \<open>status\<close> included; \<open>ok\<close> and \<open>status\<close> have the
  values of the response only when the body lacks them.
\<close>

theorem runJSON_result:
  assumes "fst (run net this w) = Some (Inr response)"
    and "json response = Some (Inr parsedJSON)"
  shows "runJSON net this w =
           (Some (Inr ([''ok'' \<mapsto> JBool (ok response),
                        ''status'' \<mapsto> JNum (status response)] ++ parsedJSON)),
            snd (run net this w))
    \<and> (\<forall>result. fst (runJSON net this w) = Some (Inr result) \<longrightarrow>
          (\<forall>k v. parsedJSON k = Some v \<longrightarrow> result k = Some v)
          \<and> (parsedJSON ''ok'' = None \<longrightarrow> result ''ok'' = Some (JBool (ok response)))
          \<and> (parsedJSON ''status'' = None \<longrightarrow>
               result ''status'' = Some (JNum (status response)))
          \<and> dom result = {''ok'', ''status''} \<union> dom parsedJSON)"
  unfolding runJSON_parsed [OF assms]
  by (auto simp: map_add_def split: option.splits if_splits)

text \<open>
  The examples of the specification: a 404 response with the body
  \<open>{"msg": "not found"}\<close>, and a body \<open>{"ok": "custom"}\<close>.
\<close>

theorem runJSON_result_witness:
  "fst (run demo_net (GET ''/missing'') initial) =
     Some (Inr \<lparr>ok = False, status = 404, json = Some (Inr [''msg'' \<mapsto> JStr ''not found''])\<rparr>)
   \<and> fst (runJSON demo_net (GET ''/missing'') initial) =
       Some (Inr [''ok'' \<mapsto> JBool False, ''status'' \<mapsto> JNum 404, ''msg'' \<mapsto> JStr ''not found''])
   \<and> fst (run demo_net (GET ''/custom'') initial) =
       Some (Inr \<lparr>ok = True, status = 200, json = Some (Inr [''ok'' \<mapsto> JStr ''custom''])\<rparr>)
   \<and> fst (runJSON demo_net (GET ''/custom'') initial) =
       Some (Inr [''ok'' \<mapsto> JStr ''custom'', ''status'' \<mapsto> JNum 200])"
proof -
  have missing: "fst (run demo_net (GET ''/missing'') initial) =
     Some (Inr \<lparr>ok = False, status = 404, json = Some (Inr [''msg'' \<mapsto> JStr ''not found''])\<rparr>)"
    by (simp add: run_def Let_def resolve_headers_def Promise_all_def fetch_def demo_net_def
        GET_def constructor_def target_url_def Canonicalize_def char_of_eq_iff initial_def
        suffix_to_prefix)
  have custom: "fst (run demo_net (GET ''/custom'') initial) =
     Some (Inr \<lparr>ok = True, status = 200, json = Some (Inr [''ok'' \<mapsto> JStr ''custom''])\<rparr>)"
    by (simp add: run_def Let_def resolve_headers_def Promise_all_def fetch_def demo_net_def
        GET_def constructor_def target_url_def Canonicalize_def char_of_eq_iff initial_def
        suffix_to_prefix)
  have merged: "[''status'' \<mapsto> JNum 200, ''ok'' \<mapsto> JStr ''custom'']
      = [''ok'' \<mapsto> JStr ''custom'', ''status'' \<mapsto> JNum 200]"
    by (auto simp: fun_eq_iff)
  have parsed_missing:
    "json \<lparr>ok = False, status = 404, json = Some (Inr [''msg'' \<mapsto> JStr ''not found''])\<rparr>
       = Some (Inr [''msg'' \<mapsto> JStr ''not found''])"
    by simp
  have parsed_custom:
    "json \<lparr>ok = True, status = 200, json = Some (Inr [''ok'' \<mapsto> JStr ''custom''])\<rparr>
       = Some (Inr [''ok'' \<mapsto> JStr ''custom''])"
    by simp
  have "fst (runJSON demo_net (GET ''/missing'') initial) =
       Some (Inr [''ok'' \<mapsto> JBool False, ''status'' \<mapsto> JNum 404, ''msg'' \<mapsto> JStr ''not found''])"
    by (simp add: runJSON_result [OF missing parsed_missing, THEN conjunct1])
  moreover have "fst (runJSON demo_net (GET ''/custom'') initial) =
       Some (Inr [''ok'' \<mapsto> JStr ''custom'', ''status'' \<mapsto> JNum 200])"
    by (simp add: runJSON_result [OF custom parsed_custom, THEN conjunct1] merged)
  ultimately show ?thesis
    using missing custom by (intro conjI)
qed

subsection \<open>The constructors\<close>

text \<open>
  C5. The constructors for a method with a JSON entity body are \<open>POST\<close>, \<open>PUT\<close> and
  \<open>_METHODS_WITH_DATA\<close> at any method (\<open>PATCH\<close> has no constructor of its own): the
  header sources of the builder they make are the one entry
  \<open>{ "Content-Type": "application/json" }\<close>. The constructors for a method without
  entity body are \<open>GET\<close>, \<open>DEL\<close> and \<open>_METHODS_WO_DATA\<close> at any method (\<open>HEAD\<close>, \<open>OPTIONS\<close>):
  the builder they make has no header source. After any calls of \<open>header\<close> the default
  is still the first entry, so the merged headers have the key \<open>Content-Type\<close>: with
  the value of the last later source that has the key, and with \<open>application/json\<close>
  when none has.
\<close>

theorem default_header_sources:
  "p_headers (METHODS_WITH_DATA m path :: 'e oof) =
     [Object [''Content-Type'' \<mapsto> JStr ''application/json'']]
   \<and> p_method (METHODS_WITH_DATA m path :: 'e oof) = m
   \<and> (POST path :: 'e oof) = METHODS_WITH_DATA HttpPOST path
   \<and> (PUT path :: 'e oof) = METHODS_WITH_DATA HttpPUT path
   \<and> p_headers (METHODS_WO_DATA m path :: 'e oof) = []
   \<and> p_method (METHODS_WO_DATA m path :: 'e oof) = m
   \<and> (GET path :: 'e oof) = METHODS_WO_DATA HttpGET path
   \<and> (DEL path :: 'e oof) = METHODS_WO_DATA HttpDELETE path
   \<and> p_headers (foldl (\<lambda>b h. header h b) (METHODS_WITH_DATA m path :: 'e oof) hs) =
       Object [''Content-Type'' \<mapsto> JStr ''application/json''] # hs
   \<and> (map resolved_value (p_headers (foldl (\<lambda>b h. header h b)
          (METHODS_WITH_DATA m path :: 'e oof) hs)) = map Some items \<longrightarrow>
        (\<exists>later. items = [''Content-Type'' \<mapsto> JStr ''application/json''] # later
           \<and> map resolved_value hs = map Some later
           \<and> reduce_headers items ''Content-Type'' =
               (case last_writer later ''Content-Type'' of
                  None \<Rightarrow> Some (JStr ''application/json'')
                | Some v \<Rightarrow> Some v)))"
proof -
  have first: "p_headers (METHODS_WITH_DATA m path :: 'e oof) =
     [Object [''Content-Type'' \<mapsto> JStr ''application/json'']]"
    by (simp add: METHODS_WITH_DATA_def constructor_def)
  have chain: "p_headers (foldl (\<lambda>b h. header h b) (METHODS_WITH_DATA m path :: 'e oof) hs) =
       Object [''Content-Type'' \<mapsto> JStr ''application/json''] # hs"
    by (simp add: p_headers_header_chain first)
  have merged: "\<exists>later. items = [''Content-Type'' \<mapsto> JStr ''application/json''] # later
           \<and> map resolved_value hs = map Some later
           \<and> reduce_headers items ''Content-Type'' =
               (case last_writer later ''Content-Type'' of
                  None \<Rightarrow> Some (JStr ''application/json'')
                | Some v \<Rightarrow> Some v)"
    if "map resolved_value (p_headers (foldl (\<lambda>b h. header h b)
          (METHODS_WITH_DATA m path :: 'e oof) hs)) = map Some items"
  proof -
    from that chain obtain later
      where items: "items = [''Content-Type'' \<mapsto> JStr ''application/json''] # later"
        and later: "map resolved_value hs = map Some later"
      by (cases items) auto
    have "reduce_headers items ''Content-Type'' =
            (case last_writer later ''Content-Type'' of
               None \<Rightarrow> Some (JStr ''application/json'')
             | Some v \<Rightarrow> Some v)"
      unfolding items reduce_headers_Cons
      by (simp add: map_add_def reduce_headers_last_writer split: option.splits)
    with items later show ?thesis by blast
  qed
  show ?thesis
    using first chain merged
    by (simp add: METHODS_WITH_DATA_def METHODS_WO_DATA_def POST_def PUT_def GET_def DEL_def
        constructor_def)
qed

text \<open>
  \<open>POST\<close>, \<open>PATCH\<close> through \<open>_METHODS_WITH_DATA\<close>, \<open>GET\<close>, \<open>HEAD\<close> through
  \<open>_METHODS_WO_DATA\<close>; a later source that overrides the content type, and one that
  does not.
\<close>

theorem default_header_sources_witness:
  "p_headers (POST ''/test'' :: string oof) = [Object [''Content-Type'' \<mapsto> JStr ''application/json'']]
   \<and> p_headers (METHODS_WITH_DATA HttpPATCH ''/test'' :: string oof) =
       [Object [''Content-Type'' \<mapsto> JStr ''application/json'']]
   \<and> p_headers (GET ''/test'' :: string oof) = []
   \<and> p_headers (METHODS_WO_DATA HttpHEAD ''/test'' :: string oof) = []
   \<and> map resolved_value (p_headers (foldl (\<lambda>b h. header h b) (METHODS_WITH_DATA HttpPUT ''/test'' :: string oof)
         [Object [''Content-Type'' \<mapsto> JStr ''text/plain''], Object [''A'' \<mapsto> JStr ''a'']]))
       = map Some [[''Content-Type'' \<mapsto> JStr ''application/json''],
                   [''Content-Type'' \<mapsto> JStr ''text/plain''], [''A'' \<mapsto> JStr ''a'']]
   \<and> reduce_headers [[''Content-Type'' \<mapsto> JStr ''application/json''],
                   [''Content-Type'' \<mapsto> JStr ''text/plain''], [''A'' \<mapsto> JStr ''a'']] ''Content-Type''
       = Some (JStr ''text/plain'')
   \<and> reduce_headers [[''Content-Type'' \<mapsto> JStr ''application/json''], [''A'' \<mapsto> JStr ''a'']] ''Content-Type''
       = Some (JStr ''application/json'')"
  using default_header_sources [where ?'e = string, of HttpPOST "''/test''"
      "[Object [''Content-Type'' \<mapsto> JStr ''text/plain''], Object [''A'' \<mapsto> JStr ''a'']]"
      "[[''Content-Type'' \<mapsto> JStr ''application/json''],
        [''Content-Type'' \<mapsto> JStr ''text/plain''], [''A'' \<mapsto> JStr ''a'']]"]
    default_header_sources [where ?'e = string, of HttpPATCH "''/test''" "[Object [''A'' \<mapsto> JStr ''a'']]"
      "[[''Content-Type'' \<mapsto> JStr ''application/json''], [''A'' \<mapsto> JStr ''a'']]"]
    default_header_sources [where ?'e = string, of HttpHEAD "''/test''" "[]" "[]"]
  by (simp add: last_writer_def header_def METHODS_WITH_DATA_def METHODS_WO_DATA_def
      constructor_def)

subsection \<open>The header merge, the transport call and the data\<close>

text \<open>
  C2, amended. When every header source resolves and the options record has no
  \<open>headers\<close> key, the \<open>headers\<close> that \<open>run\<close> passes to the transport are the left fold,
  from the empty mapping, of the resolved values in the order of the sources, by the
  shallow merge in which the later entry wins; so each key has the value of the last
  source that has it. The order of the sources is the one of insertion: those given
  to the constructor, then those of the calls of \<open>header\<close>. A function among the
  sources is called with no argument, and every source is resolved before the merge.
\<close>

theorem merged_headers_sent:
  assumes "map resolved_value (p_headers this) = map Some items"
    and "p_opts this ''headers'' = None"
  shows "map (\<lambda>c. fst (snd c) ''headers'') (fetch_calls (snd (run net this w))) =
           map (\<lambda>c. fst (snd c) ''headers'') (fetch_calls w) @
             [Some (JObj (foldl (\<lambda>obj item. obj ++ item) Map.empty items))]
    \<and> (\<forall>k. foldl (\<lambda>obj item. obj ++ item) Map.empty items k = last_writer items k)
    \<and> p_headers (foldl (\<lambda>b h. header h b) this hs) = p_headers this @ hs
    \<and> p_headers (constructor m path opts (Some (Array hs)) :: 'e oof) = hs
    \<and> p_headers (constructor m path opts (Some (Single h)) :: 'e oof) = [h]
    \<and> p_headers (constructor m path opts None :: 'e oof) = []"
proof -
  have "final_options this items ''headers'' =
          Some (JObj (foldl (\<lambda>obj item. obj ++ item) Map.empty items))"
    using assms(2) by (simp add: final_options_default reduce_headers_def)
  moreover have "\<forall>k. foldl (\<lambda>obj item. obj ++ item) Map.empty items k = last_writer items k"
    using reduce_headers_last_writer [of items] by (simp add: reduce_headers_def)
  ultimately show ?thesis
    by (simp add: run_resolved [OF assms(1)] p_headers_header_chain p_headers_constructor)
qed

text \<open>
  A plain mapping, a synchronous function and an asynchronous one, added in this
  order; the second overrides \<open>A\<close> of the first, the third \<open>B\<close> of the second.
\<close>

theorem merged_headers_sent_witness:
  "map resolved_value (p_headers (header (Function (\<lambda>u. ReturnsPromise (Fulfils [''B'' \<mapsto> JStr ''2''])))
       (header (Function (\<lambda>u. Returns [''A'' \<mapsto> JStr ''2'', ''B'' \<mapsto> JStr ''1'']))
         (header (Object [''A'' \<mapsto> JStr ''1'']) (GET ''/test'' :: string oof)))))
     = map Some [[''A'' \<mapsto> JStr ''1''], [''A'' \<mapsto> JStr ''2'', ''B'' \<mapsto> JStr ''1''], [''B'' \<mapsto> JStr ''2'']]
   \<and> p_opts (header (Function (\<lambda>u. ReturnsPromise (Fulfils [''B'' \<mapsto> JStr ''2''])))
       (header (Function (\<lambda>u. Returns [''A'' \<mapsto> JStr ''2'', ''B'' \<mapsto> JStr ''1'']))
         (header (Object [''A'' \<mapsto> JStr ''1'']) (GET ''/test'' :: string oof)))) ''headers'' = None
   \<and> map (\<lambda>c. fst (snd c) ''headers'') (fetch_calls (snd (run demo_net
         (header (Function (\<lambda>u. ReturnsPromise (Fulfils [''B'' \<mapsto> JStr ''2''])))
           (header (Function (\<lambda>u. Returns [''A'' \<mapsto> JStr ''2'', ''B'' \<mapsto> JStr ''1'']))
             (header (Object [''A'' \<mapsto> JStr ''1'']) (GET ''/test'')))) initial)))
     = [Some (JObj [''A'' \<mapsto> JStr ''2'', ''B'' \<mapsto> JStr ''2''])]"
proof -
  have "foldl (\<lambda>obj item. obj ++ item) Map.empty
          [[''A'' \<mapsto> JStr ''1''], [''A'' \<mapsto> JStr ''2'', ''B'' \<mapsto> JStr ''1''], [''B'' \<mapsto> JStr ''2'']]
        = [''A'' \<mapsto> JStr ''2'', ''B'' \<mapsto> JStr ''2'']"
    by (auto simp: fun_eq_iff map_add_def)
  then show ?thesis
    using merged_headers_sent [of "header (Function (\<lambda>u. ReturnsPromise (Fulfils [''B'' \<mapsto> JStr ''2''])))
       (header (Function (\<lambda>u. Returns [''A'' \<mapsto> JStr ''2'', ''B'' \<mapsto> JStr ''1'']))
         (header (Object [''A'' \<mapsto> JStr ''1'']) (GET ''/test'' :: string oof)))"
       "[[''A'' \<mapsto> JStr ''1''], [''A'' \<mapsto> JStr ''2'', ''B'' \<mapsto> JStr ''1''], [''B'' \<mapsto> JStr ''2'']]"
       demo_net initial]
    by (simp add: header_def GET_def constructor_def initial_def)
qed

text \<open>
  C2 as stated fails when the options record has a \<open>headers\<close> key: the builder
  \<open>GET("/test").header({A: "a"}).options({headers: {X: "1"}})\<close> passes the headers
  \<open>{X: "1"}\<close> to the transport, which is not the merge \<open>{A: "a"}\<close> of its header
  sources.
\<close>

theorem options_headers_shadow_merge:
  "map resolved_value (p_headers with_options_headers) = map Some [[''A'' \<mapsto> JStr ''a'']]
   \<and> map (\<lambda>c. fst (snd c) ''headers'')
         (fetch_calls (snd (run demo_net with_options_headers initial)))
       = [Some (JObj [''X'' \<mapsto> JStr ''1''])]
   \<and> JObj [''X'' \<mapsto> JStr ''1'']
       \<noteq> JObj (foldl (\<lambda>obj item. obj ++ item) Map.empty [[''A'' \<mapsto> JStr ''a'']])"
proof -
  have resolved: "map resolved_value (p_headers with_options_headers) = map Some [[''A'' \<mapsto> JStr ''a'']]"
    by (simp add: with_options_headers_def options_def header_def GET_def constructor_def)
  have "[''X'' \<mapsto> JStr ''1''] ''A'' \<noteq> (Map.empty ++ [''A'' \<mapsto> JStr ''a'']) ''A''"
    by simp
  then have "[''X'' \<mapsto> JStr ''1''] \<noteq> Map.empty ++ [''A'' \<mapsto> JStr ''a'']"
    by metis
  then show ?thesis
    using resolved
    by (simp add: run_resolved [OF resolved] final_options_def initial_def)
       (simp add: with_options_headers_def options_def)
qed

text \<open>
  C6, amended. A terminal call invokes the transport at most once. When every header
  source resolves, \<open>run\<close> invokes it exactly once, with the resolved URL, the final
  options and the data, and returns what the transport returns, as it is. When a
  header source throws, rejects or never settles, \<open>run\<close> does not invoke it. \<open>runJSON\<close>
  makes no call of the transport besides the one of the \<open>run\<close> it starts with. Nothing
  is retried.
\<close>

theorem one_transport_call:
  "(map resolved_value (p_headers this) = map Some items \<longrightarrow>
      run net this w =
        (net (target_url this w) (final_options this items) (p_data this),
         w\<lparr>fetch_calls := fetch_calls w @
              [(target_url this w, final_options this items, p_data this)]\<rparr>))
   \<and> ((\<forall>items'. map resolved_value (p_headers this) \<noteq> map Some items') \<longrightarrow>
        snd (run net this w) = w)
   \<and> snd (runJSON net this w) = snd (run net this w)
   \<and> length (fetch_calls (snd (run net this w))) \<le> length (fetch_calls w) + 1"
  using run_resolved [of this items net w] run_not_resolved [of this net w]
    run_call_count [of net this w]
  by (simp add: runJSON_world)

text \<open>
  A run that reaches the transport, and one whose header function throws.
\<close>

theorem one_transport_call_witness:
  "map resolved_value (p_headers (GET ''/test'' :: string oof)) = map Some []
   \<and> fst (run demo_net (GET ''/test'') initial) =
       demo_net ''/test'' (final_options (GET ''/test'' :: string oof) []) JUndefined
   \<and> fetch_calls (snd (run demo_net (GET ''/test'') initial)) =
       [(''/test'', final_options (GET ''/test'' :: string oof) [], JUndefined)]
   \<and> fetch_calls (snd (runJSON demo_net (GET ''/test'') initial)) =
       [(''/test'', final_options (GET ''/test'' :: string oof) [], JUndefined)]
   \<and> map resolved_value (p_headers throwing) = [None]
   \<and> fetch_calls (snd (runJSON demo_net throwing initial)) = []"
proof -
  have resolved: "map resolved_value (p_headers (GET ''/test'' :: string oof)) = map Some []"
    by (simp add: GET_def constructor_def)
  have url: "target_url (GET ''/test'' :: string oof) initial = ''/test''"
    by (simp add: GET_def constructor_def initial_def target_url_def Canonicalize_def
        char_of_eq_iff)
  have unresolved: "map resolved_value (p_headers throwing) = [None]"
    by (simp add: throwing_def header_def GET_def constructor_def)
  then have never: "\<forall>items'. map resolved_value (p_headers throwing) \<noteq> map Some items'"
    by auto
  have "run demo_net (GET ''/test'') initial =
      (demo_net ''/test'' (final_options (GET ''/test'' :: string oof) []) JUndefined,
       initial\<lparr>fetch_calls := fetch_calls initial @
         [(''/test'', final_options (GET ''/test'' :: string oof) [], JUndefined)]\<rparr>)"
    using one_transport_call [of "GET ''/test'' :: string oof" "[]" demo_net initial]
      resolved url by (simp add: GET_def constructor_def)
  moreover have "snd (runJSON demo_net (GET ''/test'') initial) =
      snd (run demo_net (GET ''/test'') initial)"
    using one_transport_call [of "GET ''/test'' :: string oof" "[]" demo_net initial] by blast
  moreover have "snd (run demo_net throwing initial) = initial"
    using one_transport_call [of throwing "[]" demo_net initial] never by blast
  moreover have "snd (runJSON demo_net throwing initial) = snd (run demo_net throwing initial)"
    using one_transport_call [of throwing "[]" demo_net initial] by blast
  ultimately show ?thesis
    using resolved unresolved by (simp add: initial_def)
qed

text \<open>
  C6 as stated fails when a header source fails: for
  \<open>GET("/test").header(() => { throw "boom" })\<close> the terminal calls invoke the
  transport zero times.
\<close>

theorem failing_source_no_transport_call:
  "run demo_net throwing initial = (Some (Inl ''boom''), initial)
   \<and> fetch_calls (snd (run demo_net throwing initial)) = []
   \<and> fetch_calls (snd (runJSON demo_net throwing initial)) = []"
  by (simp add: run_throwing runJSON_world initial_def)

text \<open>
  C7, amended. The value of the most recent call of \<open>data\<close> is the stored payload
  (\<open>undefined\<close> when \<open>data\<close> was never called; \<open>header\<close> and \<open>options\<close> leave it alone), and
  \<open>run\<close> passes the stored payload to the transport as its third argument whatever
  the method of the builder is.
\<close>

theorem data_passed_for_every_method:
  "p_data (data d (data d' this)) = d
   \<and> p_data (constructor m path opts hs :: 'e oof) = JUndefined
   \<and> p_data (header h this) = p_data this
   \<and> p_data (options opts' this) = p_data this
   \<and> (map resolved_value (p_headers this) = map Some items \<longrightarrow>
        map (\<lambda>c. snd (snd c)) (fetch_calls (snd (run net (this\<lparr>p_method := m'\<rparr>) w))) =
          map (\<lambda>c. snd (snd c)) (fetch_calls w) @ [p_data this])"
  using run_resolved [of "this\<lparr>p_method := m'\<rparr>" items net w]
  by (simp add: data_def constructor_def header_def options_def)

text \<open>
  Two calls of \<open>data\<close> on a builder whose method carries no entity body, and a
  builder that was given no data.
\<close>

theorem data_passed_for_every_method_witness:
  "map resolved_value (p_headers (data (JStr ''new'') (data (JStr ''old'') (DEL ''/test'' :: string oof))))
     = map Some []
   \<and> map (\<lambda>c. snd (snd c)) (fetch_calls (snd (run demo_net
         ((data (JStr ''new'') (data (JStr ''old'') (DEL ''/test'')))\<lparr>p_method := HttpHEAD\<rparr>) initial)))
       = [JStr ''new'']
   \<and> map (\<lambda>c. snd (snd c)) (fetch_calls (snd (run demo_net
         ((DEL ''/test'')\<lparr>p_method := HttpPOST\<rparr>) initial)))
       = [JUndefined]"
  using data_passed_for_every_method [of "JStr ''new''" "JStr ''old''" "DEL ''/test'' :: string oof"
      HttpDELETE "''/test''" None None "Object Map.empty" Map.empty "[]" demo_net HttpHEAD initial]
    data_passed_for_every_method [of "JStr ''new''" "JStr ''old''"
      "data (JStr ''new'') (data (JStr ''old'') (DEL ''/test'' :: string oof))"
      HttpDELETE "''/test''" None None "Object Map.empty" Map.empty "[]" demo_net HttpHEAD initial]
    data_passed_for_every_method [of "JStr ''new''" "JStr ''old''" "DEL ''/test'' :: string oof"
      HttpDELETE "''/test''" None None "Object Map.empty" Map.empty "[]" demo_net HttpPOST initial]
  by (simp add: data_def DEL_def constructor_def initial_def)

text \<open>
  C7 as stated fails for a \<open>GET\<close> builder that was given data:
  \<open>GET("/test").data("payload")\<close> passes \<open>"payload"\<close> to the transport.
\<close>

theorem data_passed_for_get:
  "p_method get_with_data = HttpGET
   \<and> map (\<lambda>c. snd (snd c)) (fetch_calls (snd (run demo_net get_with_data initial)))
       = [JStr ''payload'']"
proof -
  have "map resolved_value (p_headers get_with_data) = map Some []"
    by (simp add: get_with_data_def data_def GET_def constructor_def)
  then show ?thesis
    by (simp add: run_resolved initial_def)
       (simp add: get_with_data_def data_def GET_def constructor_def)
qed

subsection \<open>Failures\<close>

text \<open>
  C8, amended. A terminal call that fails hands one failure to the caller, as it is:
  \<^item> what the first header function (in the order of the sources) that throws has
    thrown, whatever the other sources do;
  \<^item> when no function throws, the rejection of the header promise that rejects first
    (of two that reject at the same moment, the one of the earlier source), whether
    or not other promises stay pending;
  \<^item> when the sources resolve, the failure of the transport;
  \<^item> in \<open>runJSON\<close>, once the response is there, the failure to parse its body.

  In the first two cases the state is left as it was. A failure of another header
  source in the same call does not reach the caller. Whenever a header source fails,
  the call fails, with the failure of a header source. The builder has no failure of
  its own: whatever \<open>run\<close> rejects with is the failure of a header source or of the
  transport, and whatever \<open>runJSON\<close> rejects with is that or the parser's. There is no
  partial result (\<open>runJSON\<close> fulfils only when the sources, the transport and the
  parser all did) and no retry (at most one call of the transport).
\<close>

theorem winning_failure_propagates:
  "(p_headers this = before @ Function f # after \<and> f () = Throws e
      \<and> (\<forall>h' \<in> set before. thrown h' = None) \<longrightarrow>
      run net this w = (Some (Inl e), w) \<and> runJSON net this w = (Some (Inl e), w))
   \<and> (p_headers this = before @ Function f # after \<and> f () = ReturnsPromise (Rejects t e)
        \<and> (\<forall>h' \<in> set (p_headers this). thrown h' = None)
        \<and> (\<forall>h' \<in> set before. \<forall>t' e'. rejection h' = Some (t', e') \<longrightarrow> t < t')
        \<and> (\<forall>h' \<in> set after. \<forall>t' e'. rejection h' = Some (t', e') \<longrightarrow> t \<le> t') \<longrightarrow>
        run net this w = (Some (Inl e), w) \<and> runJSON net this w = (Some (Inl e), w))
   \<and> (h \<in> set (p_headers this) \<and> failure h = Some e \<longrightarrow>
      (\<exists>e'. (\<exists>h' \<in> set (p_headers this). failure h' = Some e')
         \<and> run net this w = (Some (Inl e'), w)
         \<and> runJSON net this w = (Some (Inl e'), w)))
   \<and> (map resolved_value (p_headers this) = map Some items
        \<and> net (target_url this w) (final_options this items) (p_data this) = Some (Inl e) \<longrightarrow>
        fst (run net this w) = Some (Inl e) \<and> fst (runJSON net this w) = Some (Inl e))
   \<and> (fst (run net this w) = Some (Inr response) \<and> json response = Some (Inl e) \<longrightarrow>
        fst (runJSON net this w) = Some (Inl e))
   \<and> (fst (run net this w) = Some (Inl e) \<longrightarrow>
        (\<exists>h' \<in> set (p_headers this). failure h' = Some e)
        \<or> (\<exists>items'. map resolved_value (p_headers this) = map Some items'
              \<and> net (target_url this w) (final_options this items') (p_data this)
                  = Some (Inl e)))
   \<and> (fst (runJSON net this w) = Some (Inl e) \<longrightarrow>
        fst (run net this w) = Some (Inl e)
        \<or> (\<exists>response'. fst (run net this w) = Some (Inr response')
              \<and> json response' = Some (Inl e)))
   \<and> (fst (runJSON net this w) = Some (Inr result) \<longrightarrow>
        (\<exists>items' response' parsedJSON.
           map resolved_value (p_headers this) = map Some items'
           \<and> net (target_url this w) (final_options this items') (p_data this)
               = Some (Inr response')
           \<and> json response' = Some (Inr parsedJSON)))
   \<and> length (fetch_calls (snd (runJSON net this w))) \<le> length (fetch_calls w) + 1"
proof -
  have throw: "p_headers this = before @ Function f # after \<and> f () = Throws e
      \<and> (\<forall>h' \<in> set before. thrown h' = None) \<longrightarrow>
      run net this w = (Some (Inl e), w) \<and> runJSON net this w = (Some (Inl e), w)"
  proof
    assume "p_headers this = before @ Function f # after \<and> f () = Throws e
      \<and> (\<forall>h' \<in> set before. thrown h' = None)"
    then have "p_headers this = before @ Function f # after" and "f () = Throws e"
      and "\<forall>h' \<in> set before. thrown h' = None"
      by simp_all
    then show "run net this w = (Some (Inl e), w) \<and> runJSON net this w = (Some (Inl e), w)"
      by (rule first_throw_wins)
  qed
  have reject: "p_headers this = before @ Function f # after \<and> f () = ReturnsPromise (Rejects t e)
        \<and> (\<forall>h' \<in> set (p_headers this). thrown h' = None)
        \<and> (\<forall>h' \<in> set before. \<forall>t' e'. rejection h' = Some (t', e') \<longrightarrow> t < t')
        \<and> (\<forall>h' \<in> set after. \<forall>t' e'. rejection h' = Some (t', e') \<longrightarrow> t \<le> t') \<longrightarrow>
        run net this w = (Some (Inl e), w) \<and> runJSON net this w = (Some (Inl e), w)"
  proof
    assume a: "p_headers this = before @ Function f # after \<and> f () = ReturnsPromise (Rejects t e)
        \<and> (\<forall>h' \<in> set (p_headers this). thrown h' = None)
        \<and> (\<forall>h' \<in> set before. \<forall>t' e'. rejection h' = Some (t', e') \<longrightarrow> t < t')
        \<and> (\<forall>h' \<in> set after. \<forall>t' e'. rejection h' = Some (t', e') \<longrightarrow> t \<le> t')"
    from a have a1: "p_headers this = before @ Function f # after" by (rule conjunct1)
    from a have a2: "f () = ReturnsPromise (Rejects t e)"
      by (rule conjunct2 [THEN conjunct1])
    from a have a3: "\<forall>h' \<in> set (p_headers this). thrown h' = None"
      by (rule conjunct2 [THEN conjunct2, THEN conjunct1])
    from a have a4: "\<forall>h' \<in> set before. \<forall>t' e'. rejection h' = Some (t', e') \<longrightarrow> t < t'"
      by (rule conjunct2 [THEN conjunct2, THEN conjunct2, THEN conjunct1])
    from a have a5: "\<forall>h' \<in> set after. \<forall>t' e'. rejection h' = Some (t', e') \<longrightarrow> t \<le> t'"
      by (rule conjunct2 [THEN conjunct2, THEN conjunct2, THEN conjunct2])
    from a1 a2 a3 a4 a5
    show "run net this w = (Some (Inl e), w) \<and> runJSON net this w = (Some (Inl e), w)"
      by (rule first_rejection_wins)
  qed
  have source: "h \<in> set (p_headers this) \<and> failure h = Some e \<longrightarrow>
      (\<exists>e'. (\<exists>h' \<in> set (p_headers this). failure h' = Some e')
         \<and> run net this w = (Some (Inl e'), w)
         \<and> runJSON net this w = (Some (Inl e'), w))"
  proof
    assume "h \<in> set (p_headers this) \<and> failure h = Some e"
    then have "h \<in> set (p_headers this)" and "failure h = Some e" by simp_all
    then show "\<exists>e'. (\<exists>h' \<in> set (p_headers this). failure h' = Some e')
         \<and> run net this w = (Some (Inl e'), w)
         \<and> runJSON net this w = (Some (Inl e'), w)"
      by (rule failing_source_run)
  qed
  have transport: "map resolved_value (p_headers this) = map Some items
        \<and> net (target_url this w) (final_options this items) (p_data this) = Some (Inl e) \<longrightarrow>
        fst (run net this w) = Some (Inl e) \<and> fst (runJSON net this w) = Some (Inl e)"
  proof
    assume "map resolved_value (p_headers this) = map Some items
        \<and> net (target_url this w) (final_options this items) (p_data this) = Some (Inl e)"
    then have "fst (run net this w) = Some (Inl e)"
      using run_transport_rejected [of this items net w e] by simp
    then show "fst (run net this w) = Some (Inl e) \<and> fst (runJSON net this w) = Some (Inl e)"
      by (simp add: runJSON_run_rejected)
  qed
  have parse: "fst (run net this w) = Some (Inr response) \<and> json response = Some (Inl e) \<longrightarrow>
        fst (runJSON net this w) = Some (Inl e)"
    using runJSON_parse_rejected [of net this w response e] by simp
  have run_origin: "fst (run net this w) = Some (Inl e) \<longrightarrow>
        (\<exists>h' \<in> set (p_headers this). failure h' = Some e)
        \<or> (\<exists>items'. map resolved_value (p_headers this) = map Some items'
              \<and> net (target_url this w) (final_options this items') (p_data this)
                  = Some (Inl e))"
    by (rule impI) (rule run_Inl_origin)
  have json_origin: "fst (runJSON net this w) = Some (Inl e) \<longrightarrow>
        fst (run net this w) = Some (Inl e)
        \<or> (\<exists>response'. fst (run net this w) = Some (Inr response')
              \<and> json response' = Some (Inl e))"
    by (rule impI) (rule runJSON_Inl_origin)
  have whole: "fst (runJSON net this w) = Some (Inr result) \<longrightarrow>
        (\<exists>items' response' parsedJSON.
           map resolved_value (p_headers this) = map Some items'
           \<and> net (target_url this w) (final_options this items') (p_data this)
               = Some (Inr response')
           \<and> json response' = Some (Inr parsedJSON))"
    by (rule impI) (rule runJSON_Inr_origin)
  have once: "length (fetch_calls (snd (runJSON net this w))) \<le> length (fetch_calls w) + 1"
    by (simp only: runJSON_world run_call_count)
  show ?thesis
    by (rule conjI [OF throw conjI [OF reject conjI [OF source conjI [OF transport
          conjI [OF parse conjI [OF run_origin conjI [OF json_origin conjI [OF whole once]]]]]]]])
qed

text \<open>
  Two functions that throw; two promises of which the later one rejects first; a
  rejected promise followed by a function that throws; a rejection next to a promise
  that stays pending; a request that fails in the network; a body that does not
  parse.
\<close>

theorem winning_failure_propagates_witness:
  "run demo_net two_throwing initial = (Some (Inl ''first''), initial)
   \<and> runJSON demo_net racing initial = (Some (Inl ''fast''), initial)
   \<and> runJSON demo_net orphaning initial = (Some (Inl ''thrown''), initial)
   \<and> runJSON demo_net rejecting initial = (Some (Inl ''denied''), initial)
   \<and> fst (runJSON demo_net (GET ''/down'') initial) = Some (Inl ''NetworkError'')
   \<and> fst (runJSON demo_net (GET ''/garbled'') initial) = Some (Inl ''SyntaxError'')"
proof -
  have "p_headers two_throwing =
          [] @ Function (\<lambda>u. Throws ''first'') # [Function (\<lambda>u. Throws ''second'')]
      \<and> (\<lambda>u. Throws ''first'' :: string Returned) () = Throws ''first''
      \<and> (\<forall>h' \<in> set ([] :: string Header list). thrown h' = None)"
    by (simp add: two_throwing_def header_def GET_def constructor_def)
  with winning_failure_propagates [where this = two_throwing and before = "[]"
      and f = "\<lambda>u. Throws ''first''" and after = "[Function (\<lambda>u. Throws ''second'')]"
      and e = "''first''" and net = demo_net and w = initial, THEN conjunct1]
  have first: "run demo_net two_throwing initial = (Some (Inl ''first''), initial)"
    by blast
  have "p_headers orphaning =
          [Function (\<lambda>u. ReturnsPromise (Rejects 0 ''rejected''))]
            @ Function (\<lambda>u. Throws ''thrown'') # []
      \<and> (\<lambda>u. Throws ''thrown'' :: string Returned) () = Throws ''thrown''
      \<and> (\<forall>h' \<in> set [Function (\<lambda>u. ReturnsPromise (Rejects 0 ''rejected'')) :: string Header].
            thrown h' = None)"
    by (simp add: orphaning_def header_def GET_def constructor_def)
  with winning_failure_propagates [where this = orphaning
      and before = "[Function (\<lambda>u. ReturnsPromise (Rejects 0 ''rejected''))]"
      and f = "\<lambda>u. Throws ''thrown''" and after = "[]"
      and e = "''thrown''" and net = demo_net and w = initial, THEN conjunct1]
  have thrown: "runJSON demo_net orphaning initial = (Some (Inl ''thrown''), initial)"
    by blast
  have "p_headers racing =
          [Function (\<lambda>u. ReturnsPromise (Rejects 5 ''slow''))]
            @ Function (\<lambda>u. ReturnsPromise (Rejects 2 ''fast'')) # []
      \<and> (\<lambda>u. ReturnsPromise (Rejects 2 ''fast'') :: string Returned) ()
           = ReturnsPromise (Rejects 2 ''fast'')
      \<and> (\<forall>h' \<in> set (p_headers racing). thrown h' = None)
      \<and> (\<forall>h' \<in> set [Function (\<lambda>u. ReturnsPromise (Rejects 5 ''slow'')) :: string Header].
            \<forall>t' e'. rejection h' = Some (t', e') \<longrightarrow> 2 < t')
      \<and> (\<forall>h' \<in> set ([] :: string Header list).
            \<forall>t' e'. rejection h' = Some (t', e') \<longrightarrow> 2 \<le> t')"
    by (simp add: racing_def header_def GET_def constructor_def)
  with winning_failure_propagates [where this = racing
      and before = "[Function (\<lambda>u. ReturnsPromise (Rejects 5 ''slow''))]"
      and f = "\<lambda>u. ReturnsPromise (Rejects 2 ''fast'')" and after = "[]"
      and t = 2 and e = "''fast''" and net = demo_net and w = initial,
      THEN conjunct2, THEN conjunct1]
  have fast: "runJSON demo_net racing initial = (Some (Inl ''fast''), initial)"
    by blast
  have "p_headers rejecting =
          [Object [''Content-Type'' \<mapsto> JStr ''application/json''],
           Function (\<lambda>u. ReturnsPromise Pending)]
            @ Function (\<lambda>u. ReturnsPromise (Rejects 0 ''denied'')) # []
      \<and> (\<lambda>u. ReturnsPromise (Rejects 0 ''denied'') :: string Returned) ()
           = ReturnsPromise (Rejects 0 ''denied'')
      \<and> (\<forall>h' \<in> set (p_headers rejecting). thrown h' = None)
      \<and> (\<forall>h' \<in> set [Object [''Content-Type'' \<mapsto> JStr ''application/json''],
             Function (\<lambda>u. ReturnsPromise Pending) :: string Header].
            \<forall>t' e'. rejection h' = Some (t', e') \<longrightarrow> 0 < t')
      \<and> (\<forall>h' \<in> set ([] :: string Header list).
            \<forall>t' e'. rejection h' = Some (t', e') \<longrightarrow> 0 \<le> t')"
    by (simp add: rejecting_def header_def POST_def METHODS_WITH_DATA_def constructor_def)
  with winning_failure_propagates [where this = rejecting
      and before = "[Object [''Content-Type'' \<mapsto> JStr ''application/json''],
           Function (\<lambda>u. ReturnsPromise Pending)]"
      and f = "\<lambda>u. ReturnsPromise (Rejects 0 ''denied'')" and after = "[]"
      and t = 0 and e = "''denied''" and net = demo_net and w = initial,
      THEN conjunct2, THEN conjunct1]
  have denied: "runJSON demo_net rejecting initial = (Some (Inl ''denied''), initial)"
    by blast
  have "map resolved_value (p_headers (GET ''/down'' :: string oof)) = map Some []
      \<and> demo_net (target_url (GET ''/down'' :: string oof) initial)
            (final_options (GET ''/down'' :: string oof) []) (p_data (GET ''/down'' :: string oof))
          = Some (Inl ''NetworkError'')"
    by (simp add: GET_def constructor_def target_url_def Canonicalize_def char_of_eq_iff
        initial_def demo_net_def suffix_to_prefix)
  with winning_failure_propagates [where this = "GET ''/down'' :: string oof" and items = "[]"
      and e = "''NetworkError''" and net = demo_net and w = initial,
      THEN conjunct2, THEN conjunct2, THEN conjunct2, THEN conjunct1]
  have down: "fst (runJSON demo_net (GET ''/down'') initial) = Some (Inl ''NetworkError'')"
    by blast
  have "fst (run demo_net (GET ''/garbled'') initial) =
      Some (Inr \<lparr>ok = True, status = 200, json = Some (Inl ''SyntaxError'')\<rparr>)
      \<and> json \<lparr>ok = True, status = 200, json = Some (Inl ''SyntaxError'')\<rparr>
          = Some (Inl ''SyntaxError'')"
    by (simp add: run_def Let_def resolve_headers_def Promise_all_def fetch_def demo_net_def
        GET_def constructor_def target_url_def Canonicalize_def char_of_eq_iff initial_def
        suffix_to_prefix)
  with winning_failure_propagates [where this = "GET ''/garbled'' :: string oof"
      and response = "\<lparr>ok = True, status = 200, json = Some (Inl ''SyntaxError'')\<rparr>"
      and e = "''SyntaxError''" and net = demo_net and w = initial,
      THEN conjunct2, THEN conjunct2, THEN conjunct2, THEN conjunct2, THEN conjunct1]
  have garbled: "fst (runJSON demo_net (GET ''/garbled'') initial) = Some (Inl ''SyntaxError'')"
    by blast
  show ?thesis
    by (rule conjI [OF first conjI [OF fast conjI [OF thrown conjI [OF denied
          conjI [OF down garbled]]]]])
qed

text \<open>
  C8 as stated fails when two header sources fail in one call. In
  \<open>GET("/test").header(() => Promise.reject("rejected")).header(() => { throw "thrown" })\<close>
  the first function is called and its promise rejects, but \<open>map\<close> ends at the second,
  and the caller gets \<open>"thrown"\<close> only. With two promises that reject, \<open>Promise.all\<close> hands
  over the rejection that comes first, and the other one is dropped.
\<close>

theorem losing_failure_dropped:
  "Function (\<lambda>u. ReturnsPromise (Rejects 0 ''rejected'')) \<in> set (p_headers orphaning)
   \<and> failure (Function (\<lambda>u. ReturnsPromise (Rejects 0 ''rejected'')) :: string Header)
       = Some ''rejected''
   \<and> run demo_net orphaning initial = (Some (Inl ''thrown''), initial)
   \<and> fst (runJSON demo_net orphaning initial) \<noteq> Some (Inl ''rejected'')
   \<and> Function (\<lambda>u. ReturnsPromise (Rejects 5 ''slow'')) \<in> set (p_headers racing)
   \<and> failure (Function (\<lambda>u. ReturnsPromise (Rejects 5 ''slow'')) :: string Header)
       = Some ''slow''
   \<and> run demo_net racing initial = (Some (Inl ''fast''), initial)
   \<and> fst (runJSON demo_net racing initial) \<noteq> Some (Inl ''slow'')"
proof -
  have orphaned: "run demo_net orphaning initial = (Some (Inl ''thrown''), initial)"
    by (simp add: run_def Let_def resolve_headers_def orphaning_def header_def GET_def
        constructor_def)
  have raced: "run demo_net racing initial = (Some (Inl ''fast''), initial)"
    by (simp add: run_def Let_def resolve_headers_def Promise_all_def racing_def header_def
        GET_def constructor_def)
  show ?thesis
    by (simp add: orphaned raced runJSON_def)
       (simp add: orphaning_def racing_def header_def GET_def constructor_def)
qed

end
